theory Spec2Isabelle
  imports Complex_Main "HOL-Library.Log_Nat"
begin

section \<open>Strings\<close>

text \<open>
  Error messages and identifiers are modelled as \<open>string\<close> (lists of characters).
  The two string tests the client applies to them, \<open>String.prototype.startsWith\<close>
  and \<open>String.prototype.includes\<close>, are written out as recursive functions.
\<close>

fun startsWith :: "string \<Rightarrow> string \<Rightarrow> bool" where
  "startsWith s [] = True"
| "startsWith [] (p # ps) = False"
| "startsWith (c # cs) (p # ps) = (c = p \<and> startsWith cs ps)"

fun str_includes :: "string \<Rightarrow> string \<Rightarrow> bool" where
  "str_includes [] sub = startsWith [] sub"
| "str_includes (c # cs) sub = (startsWith (c # cs) sub \<or> str_includes cs sub)"

text \<open>Decimal rendering of a number inside a template string.\<close>

fun showNat :: "nat \<Rightarrow> string" where
  "showNat n = (if n < 10 then [char_of (48 + n)]
                else showNat (n div 10) @ [char_of (48 + n mod 10)])"

declare showNat.simps [simp del]

text \<open>
  A JavaScript string whose characters matter to the client (the API token, titles,
  authors, ISBNs) is the list of its UTF-16 code units, which is what \<open>length\<close>,
  \<open>charAt\<close> and \<open>===\<close> see. \<open>ascii\<close> gives the code units of an ASCII literal.
\<close>

type_synonym js_string = "nat list"

definition ascii :: "string \<Rightarrow> js_string" where
  "ascii s = map of_char s"

text \<open>
  \<open>String.prototype.trim\<close> strips the code units of \<open>WhiteSpace\<close> and
  \<open>LineTerminator\<close> from both ends: TAB, LF, VT, FF, CR, SP, NBSP (U+00A0), U+1680,
  U+2000 to U+200A, U+2028, U+2029, U+202F, U+205F, U+3000 and U+FEFF.
\<close>

definition isWhitespace :: "nat \<Rightarrow> bool" where
  "isWhitespace c =
     (c \<in> set [9, 10, 11, 12, 13, 32, 160, 5760, 8232, 8233, 8239, 8287, 12288, 65279]
      \<or> (8192 \<le> c \<and> c \<le> 8202))"

definition trim :: "js_string \<Rightarrow> js_string" where
  "trim s = rev (dropWhile isWhitespace (rev (dropWhile isWhitespace s)))"

section \<open>Failure gate (circuit breaker)\<close>

text \<open>
  \<open>HardcoverClient.ts\<close>, lines 25-37: the constants and the three gate states.
  Times are milliseconds since the epoch (\<open>Date.now()\<close>), modelled as \<open>int\<close>; the
  counters only ever grow from 0 or are set to a constant, so they are \<open>nat\<close>.
\<close>

definition RATE_LIMIT_WINDOW :: int where "RATE_LIMIT_WINDOW = 60000"
definition CIRCUIT_BREAKER_THRESHOLD :: nat where "CIRCUIT_BREAKER_THRESHOLD = 3"
definition CIRCUIT_BREAKER_TIMEOUT :: int where "CIRCUIT_BREAKER_TIMEOUT = 60000"
definition CIRCUIT_BREAKER_HALF_OPEN_REQUESTS :: nat where
  "CIRCUIT_BREAKER_HALF_OPEN_REQUESTS = 1"

datatype CircuitState = CLOSED | OPEN | HALF_OPEN

record CircuitBreakerState =
  state :: CircuitState
  failureCount :: nat
  lastFailureTime :: int
  halfOpenAttempts :: nat
  hasNotifiedDisconnect :: bool

text \<open>The field initialisers of the singleton (also what \<open>reset()\<close> restores).\<close>

definition initialBreaker :: CircuitBreakerState where
  "initialBreaker = \<lparr> state = CLOSED, failureCount = 0, lastFailureTime = 0,
                      halfOpenAttempts = 0, hasNotifiedDisconnect = False \<rparr>"

text \<open>
  \<open>canMakeRequest\<close> (lines 143-177). The first component is \<open>None\<close> when the
  request is allowed and \<open>Some reason\<close> when it is blocked; the second is the gate
  after the call.
\<close>

definition canMakeRequest ::
  "int \<Rightarrow> CircuitBreakerState \<Rightarrow> string option \<times> CircuitBreakerState" where
  "canMakeRequest now cb =
     (case state cb of
        CLOSED \<Rightarrow> (None, cb)
      | OPEN \<Rightarrow>
          if now - lastFailureTime cb \<ge> CIRCUIT_BREAKER_TIMEOUT
          then (None, cb\<lparr> state := HALF_OPEN, halfOpenAttempts := 0 \<rparr>)
          else
            (let waitTime =
                   \<lceil>real_of_int (CIRCUIT_BREAKER_TIMEOUT - (now - lastFailureTime cb)) / 1000\<rceil>
             in (Some (''Circuit breaker is open. Hardcover service unavailable. Retry in ''
                        @ showNat (nat waitTime) @ ''s.''), cb))
      | HALF_OPEN \<Rightarrow>
          if halfOpenAttempts cb < CIRCUIT_BREAKER_HALF_OPEN_REQUESTS
          then (None, cb\<lparr> halfOpenAttempts := halfOpenAttempts cb + 1 \<rparr>)
          else (Some ''Circuit breaker is testing service recovery. Please wait.'', cb))"

text \<open>\<open>recordSuccess\<close> (lines 182-191).\<close>

definition recordSuccess :: "CircuitBreakerState \<Rightarrow> CircuitBreakerState" where
  "recordSuccess cb =
     (let cb1 = (if state cb = HALF_OPEN
                 then cb\<lparr> state := CLOSED, lastFailureTime := -1 \<rparr>
                 else cb)
      in cb1\<lparr> failureCount := 0 \<rparr>)"

text \<open>
  \<open>recordFailure\<close> (lines 196-223); \<open>now\<close> is the value of \<open>Date.now()\<close> at the
  call. The counter and the time are written before the authentication test.
\<close>

definition recordFailure :: "int \<Rightarrow> string \<Rightarrow> CircuitBreakerState \<Rightarrow> CircuitBreakerState" where
  "recordFailure now error cb =
     (let cb1 = cb\<lparr> failureCount := failureCount cb + 1, lastFailureTime := now \<rparr>
      in if str_includes error ''AUTH_FAILED'' then cb1
         else if state cb1 = HALF_OPEN
           then cb1\<lparr> state := OPEN, failureCount := CIRCUIT_BREAKER_THRESHOLD \<rparr>
         else if failureCount cb1 \<ge> CIRCUIT_BREAKER_THRESHOLD
           then cb1\<lparr> state := OPEN \<rparr>
         else cb1)"

section \<open>Request throttle\<close>

record HardcoverSettings =
  apiToken :: js_string
  rateLimitBuffer :: nat

text \<open>
  \<open>checkRateLimit\<close> (lines 243-259). The call reads the clock once (\<open>now\<close>), drops
  the timestamps that left the window, sleeps for \<open>waitTime\<close> milliseconds when the
  window is full, and then appends \<open>now\<close>, the time of arrival. The result is the
  time slept (0 when the call does not sleep) and the new timestamp list.
\<close>

definition checkRateLimit :: "HardcoverSettings \<Rightarrow> int \<Rightarrow> int list \<Rightarrow> int \<times> int list" where
  "checkRateLimit cfg now requestTimestamps =
     (let ts = filter (\<lambda>t. now - t < RATE_LIMIT_WINDOW) requestTimestamps;
          buffer = (if rateLimitBuffer cfg = 0 then 50 else rateLimitBuffer cfg);
          slept = (if length ts \<ge> buffer
                   then (case ts of
                           [] \<Rightarrow> 0
                         | oldestRequest # _ \<Rightarrow>
                             (let waitTime = RATE_LIMIT_WINDOW - (now - oldestRequest) + 100
                              in if waitTime > 0 then waitTime else 0))
                   else 0)
      in (slept, ts @ [now]))"

text \<open>
  Calls of \<open>checkRateLimit\<close> made one after another by a caller that arrives at the
  given times: the time at which each call returns, which is the arrival time plus the
  time slept. That is when the request goes on to \<open>fetch\<close>.
\<close>

fun throttled :: "HardcoverSettings \<Rightarrow> int list \<Rightarrow> int list \<Rightarrow> int list" where
  "throttled cfg [] ts = []"
| "throttled cfg (now # rest) ts =
     (case checkRateLimit cfg now ts of
        (slept, ts1) \<Rightarrow> (now + slept) # throttled cfg rest ts1)"

section \<open>Remote API client: one request\<close>

text \<open>
  What the transport can do with one request, as far as \<open>graphqlRequest\<close>
  (lines 264-366) distinguishes it: \<open>fetch\<close> or \<open>response.json()\<close> throws an
  \<open>Error\<close> with some message, or throws a value that is not an \<open>Error\<close>; the
  response is not \<open>ok\<close> and carries an HTTP status; the JSON body has an \<open>errors\<close>
  list, whose first element may have a message; or the body carries data.
\<close>

datatype 'a fetch_outcome =
    ThrowsError string
  | ThrowsNonError
  | HttpNotOk nat
  | JsonErrors "string option"
  | JsonData 'a

text \<open>A thrown JavaScript value: an \<open>Error\<close> with its message, or anything else.\<close>

datatype thrown = Error string | NonError

text \<open>
  The body of the \<open>try\<close> block (lines 291-342), from the point where \<open>fetch\<close> has
  settled. \<open>tdone\<close> is the clock at that point, which \<open>recordFailure\<close> reads.
  The HTTP-status branch throws without telling the gate; the branches for errors
  embedded in the JSON body tell the gate first.
\<close>

definition tryBlock ::
  "int \<Rightarrow> 'a fetch_outcome \<Rightarrow> CircuitBreakerState \<Rightarrow> (thrown + 'a) \<times> CircuitBreakerState" where
  "tryBlock tdone outcome cb =
     (case outcome of
        ThrowsError msg \<Rightarrow> (Inl (Error msg), cb)
      | ThrowsNonError \<Rightarrow> (Inl NonError, cb)
      | HttpNotOk status \<Rightarrow>
          if status = 401 then (Inl (Error ''HARDCOVER_AUTH_FAILED''), cb)
          else if status = 429 then (Inl (Error ''HARDCOVER_RATE_LIMIT''), cb)
          else if status \<ge> 500 then (Inl (Error ''HARDCOVER_SERVER_ERROR''), cb)
          else (Inl (Error (''HARDCOVER_API_ERROR_'' @ showNat status)), cb)
      | JsonErrors m \<Rightarrow>
          (let errorMsg = (case m of None \<Rightarrow> ''Unknown error''
                           | Some s \<Rightarrow> if s = [] then ''Unknown error'' else s)
           in if str_includes errorMsg ''403'' \<or> str_includes errorMsg ''Forbidden''
              then (Inl (Error ''HARDCOVER_AUTH_FAILED''),
                    recordFailure tdone ''HARDCOVER_AUTH_FAILED'' cb)
              else if str_includes errorMsg ''401'' \<or> str_includes errorMsg ''Unauthorized''
              then (Inl (Error ''HARDCOVER_AUTH_FAILED''),
                    recordFailure tdone ''HARDCOVER_AUTH_FAILED'' cb)
              else if str_includes errorMsg ''429'' \<or> str_includes errorMsg ''rate limit''
              then (Inl (Error ''HARDCOVER_RATE_LIMIT''),
                    recordFailure tdone ''HARDCOVER_RATE_LIMIT'' cb)
              else (Inl (Error (''HARDCOVER_GRAPHQL_ERROR: '' @ errorMsg)),
                    recordFailure tdone (''HARDCOVER_GRAPHQL_ERROR: '' @ errorMsg) cb))
      | JsonData d \<Rightarrow> (Inr d, recordSuccess cb))"

text \<open>
  The \<open>catch\<close> block (lines 343-365): what is thrown on to the caller, and the gate.
  An \<open>Error\<close> whose message starts with \<open>HARDCOVER_\<close> is re-thrown as it is.
\<close>

definition catchBlock ::
  "int \<Rightarrow> thrown \<Rightarrow> CircuitBreakerState \<Rightarrow> thrown \<times> CircuitBreakerState" where
  "catchBlock tdone error cb =
     (case error of
        Error message \<Rightarrow>
          if startsWith message ''HARDCOVER_'' then (Error message, cb)
          else if str_includes message ''fetch'' \<or> str_includes message ''network''
          then (Error ''HARDCOVER_NETWORK_ERROR'',
                recordFailure tdone ''HARDCOVER_NETWORK_ERROR'' cb)
          else (Error message, recordFailure tdone message cb)
      | NonError \<Rightarrow>
          (Error ''HARDCOVER_UNKNOWN_ERROR'',
           recordFailure tdone ''HARDCOVER_UNKNOWN_ERROR'' cb))"

text \<open>
  The part of a client that requests change: its own timestamp list and the gate
  (a process-wide singleton in the source, threaded through here).
\<close>

record HardcoverClient =
  requestTimestamps :: "int list"
  circuitBreaker :: CircuitBreakerState

text \<open>
  \<open>graphqlRequest\<close> (lines 264-366). \<open>now\<close> is the clock when the request is
  issued, \<open>tdone\<close> the clock when the transport has settled. The result is what the
  call returns or throws, whether \<open>fetch\<close> was called, and the client afterwards.
\<close>

definition graphqlRequest ::
  "HardcoverSettings \<Rightarrow> int \<Rightarrow> int \<Rightarrow> 'a fetch_outcome \<Rightarrow> HardcoverClient
     \<Rightarrow> (thrown + 'a) \<times> bool \<times> HardcoverClient" where
  "graphqlRequest cfg now tdone outcome client =
     (case canMakeRequest now (circuitBreaker client) of
        (Some reason, cb1) \<Rightarrow>
          (Inl (Error (''HARDCOVER_CIRCUIT_OPEN: '' @ reason)), False,
           client\<lparr> circuitBreaker := cb1 \<rparr>)
      | (None, cb1) \<Rightarrow>
          if apiToken cfg = [] \<or> trim (apiToken cfg) = []
          then (Inl (Error ''HARDCOVER_AUTH_FAILED''), False, client\<lparr> circuitBreaker := cb1 \<rparr>)
          else
            (let ts = snd (checkRateLimit cfg now (requestTimestamps client))
             in case tryBlock tdone outcome cb1 of
                  (Inr d, cb2) \<Rightarrow>
                    (Inr d, True, \<lparr> requestTimestamps = ts, circuitBreaker = cb2 \<rparr>)
                | (Inl e, cb2) \<Rightarrow>
                    (case catchBlock tdone e cb2 of
                       (e', cb3) \<Rightarrow>
                         (Inl e', True, \<lparr> requestTimestamps = ts, circuitBreaker = cb3 \<rparr>))))"

text \<open>Requests issued one after another: each is (\<open>now\<close>, \<open>tdone\<close>, transport outcome).\<close>

fun runRequests ::
  "HardcoverSettings \<Rightarrow> (int \<times> int \<times> 'a fetch_outcome) list \<Rightarrow> HardcoverClient
     \<Rightarrow> ((thrown + 'a) \<times> bool) list \<times> HardcoverClient" where
  "runRequests cfg [] client = ([], client)"
| "runRequests cfg ((now, tdone, outcome) # rest) client =
     (case graphqlRequest cfg now tdone outcome client of
        (r, fetched, client1) \<Rightarrow>
          (case runRequests cfg rest client1 of
             (rs, client2) \<Rightarrow> ((r, fetched) # rs, client2)))"

text \<open>Gate-level sequences: failures reported one after another, and admission checks.\<close>

fun recordFailures :: "(int \<times> string) list \<Rightarrow> CircuitBreakerState \<Rightarrow> CircuitBreakerState" where
  "recordFailures [] cb = cb"
| "recordFailures ((now, error) # rest) cb = recordFailures rest (recordFailure now error cb)"

fun admissions :: "int list \<Rightarrow> CircuitBreakerState \<Rightarrow> bool list \<times> CircuitBreakerState" where
  "admissions [] cb = ([], cb)"
| "admissions (now # rest) cb =
     (case canMakeRequest now cb of
        (reason, cb1) \<Rightarrow>
          (case admissions rest cb1 of (as, cb2) \<Rightarrow> ((reason = None) # as, cb2)))"

section \<open>Numbers\<close>

text \<open>
  A JavaScript number is an IEEE 754 double. A double is modelled as the real number it
  stands for, and an arithmetic operation as the exact operation followed by rounding
  to the nearest double, ties to the even mantissa: \<open>toDouble\<close>. A double has a
  mantissa of 53 bits, so the spacing of the doubles around \<open>x\<close> is \<open>2\<close> to the power
  \<open>floorLog2 \<bar>x\<bar> - 52\<close>, and never less than \<open>2\<close> to the power \<open>-1074\<close>
  (the subnormal numbers). Infinities, \<open>NaN\<close> and the sign of zero are not modelled:
  the model agrees with the source where nothing is divided by zero and no result
  reaches \<open>2\<close> to the power 1024. An integer of magnitude below \<open>2\<close> to the power 53
  is a double, so page numbers, page counts and string lengths are used as they are.
\<close>

definition roundHalfEven :: "real \<Rightarrow> int" where
  "roundHalfEven x =
     (let f = \<lfloor>x\<rfloor>; d = x - real_of_int f
      in if d < 1 / 2 then f else if d > 1 / 2 then f + 1 else if even f then f else f + 1)"

text \<open>For \<open>x > 0\<close>, the integer \<open>k\<close> with \<open>2\<close> to the \<open>k\<close> at most \<open>x\<close> and \<open>x\<close> below \<open>2\<close> to the \<open>k + 1\<close>.\<close>

definition floorLog2 :: "real \<Rightarrow> int" where
  "floorLog2 x = (if 1 \<le> x then bitlen \<lfloor>x\<rfloor> - 1 else - bitlen (\<lceil>1 / x\<rceil> - 1))"

definition toDouble :: "real \<Rightarrow> real" where
  "toDouble x =
     (if x = 0 then 0
      else (let e = max (floorLog2 \<bar>x\<bar> - 52) (- 1074)
            in real_of_int (roundHalfEven (x / 2 powi e)) * 2 powi e))"

text \<open>The operators \<open>/\<close>, \<open>*\<close>, \<open>+\<close> and \<open>-\<close> on doubles.\<close>

definition fdiv :: "real \<Rightarrow> real \<Rightarrow> real" where
  "fdiv a b = toDouble (a / b)"

definition fmul :: "real \<Rightarrow> real \<Rightarrow> real" where
  "fmul a b = toDouble (a * b)"

definition fadd :: "real \<Rightarrow> real \<Rightarrow> real" where
  "fadd a b = toDouble (a + b)"

definition fsub :: "real \<Rightarrow> real \<Rightarrow> real" where
  "fsub a b = toDouble (a - b)"

section \<open>Progress translator\<close>

text \<open>
  Page numbers and page counts are integers (\<open>int\<close>); fractions are doubles.
  \<open>Math.round\<close> returns the nearest integer, a half going towards \<open>+\<infinity>\<close>. A value
  \<open>number | null | undefined\<close> is an \<open>int option\<close>, and is falsy when it is absent
  or 0; a string value is falsy when it is absent or empty.
\<close>

definition mathRound :: "real \<Rightarrow> int" where
  "mathRound x = \<lfloor>x + 1 / 2\<rfloor>"

definition truthy :: "int option \<Rightarrow> bool" where
  "truthy v = (case v of None \<Rightarrow> False | Some n \<Rightarrow> n \<noteq> 0)"

definition truthyStr :: "'a list option \<Rightarrow> bool" where
  "truthyStr v = (case v of None \<Rightarrow> False | Some s \<Rightarrow> s \<noteq> [])"

text \<open>The renderer's position: a 0-based page index and the page count.\<close>

record PageInfo =
  current :: int
  total :: int

text \<open>
  The page sent by \<open>pushProgressInternal\<close> (\<open>useHardcoverSync.ts\<close>, lines 623-655).
  With \<open>total = 0\<close> the source divides by zero (\<open>Infinity\<close> or \<open>NaN\<close>); the
  model agrees with it only for \<open>total \<noteq> 0\<close>.
\<close>

definition pageToSend :: "bool \<Rightarrow> PageInfo \<Rightarrow> int option \<Rightarrow> int" where
  "pageToSend isFixedLayout pageInfo remoteTotal =
     (let localPage = current pageInfo + 1;
          localTotalPages = total pageInfo
      in if \<not> isFixedLayout
         then (case remoteTotal of
                 Some rt \<Rightarrow>
                   if rt \<noteq> 0 \<and> rt \<noteq> localTotalPages
                   then (let percentage = fdiv (real_of_int localPage) (real_of_int localTotalPages)
                         in mathRound (fmul percentage (real_of_int rt)))
                   else localPage
               | None \<Rightarrow> localPage)
         else localPage)"

text \<open>The local side of \<open>pullProgress\<close> (lines 403-410).\<close>

definition pullLocalPage :: "PageInfo option \<Rightarrow> int" where
  "pullLocalPage pageInfo = (case pageInfo of Some info \<Rightarrow> current info + 1 | None \<Rightarrow> 0)"

definition pullLocalTotalPages :: "PageInfo option \<Rightarrow> int" where
  "pullLocalTotalPages pageInfo =
     (case pageInfo of Some info \<Rightarrow> (if total info = 0 then 1 else total info) | None \<Rightarrow> 1)"

definition pullLocalPercentage :: "PageInfo option \<Rightarrow> real" where
  "pullLocalPercentage pageInfo =
     (let localPage = pullLocalPage pageInfo;
          localTotalPages = pullLocalTotalPages pageInfo
      in if localTotalPages > 0
         then fdiv (real_of_int localPage) (real_of_int localTotalPages) else 0)"

text \<open>
  The remote side of \<open>pullProgress\<close> (lines 408-444): the remote page in the local
  pagination, and the remote fraction.
\<close>

definition mapRemotePage :: "bool \<Rightarrow> int \<Rightarrow> int option \<Rightarrow> int \<Rightarrow> int \<times> real" where
  "mapRemotePage isFixedLayout remotePageRaw remoteTotal localTotalPages =
     (if \<not> isFixedLayout
      then (case remoteTotal of
              Some rt \<Rightarrow>
                if rt \<noteq> 0 \<and> rt \<noteq> localTotalPages
                then (let remotePercentage = fdiv (real_of_int remotePageRaw) (real_of_int rt)
                      in (mathRound (fmul remotePercentage (real_of_int localTotalPages)),
                          remotePercentage))
                else (remotePageRaw,
                      fdiv (real_of_int remotePageRaw) (real_of_int localTotalPages))
            | None \<Rightarrow> (remotePageRaw,
                       fdiv (real_of_int remotePageRaw) (real_of_int localTotalPages)))
      else (remotePageRaw,
            if localTotalPages > 0
            then fdiv (real_of_int remotePageRaw) (real_of_int localTotalPages) else 0))"

section \<open>Conflict resolver\<close>

datatype HardcoverSyncStrategy = Prompt | Silent | Send | Receive

record HardcoverProgress =
  hp_page :: "int option"
  updated_at :: int

record HardcoverUserBook =
  progress :: "HardcoverProgress option"
  remoteTotalPages :: "int option"

text \<open>
  What \<open>showConflictDialog\<close> is called with (lines 471-481), the book apart: the local
  fraction and page, the remote fraction and page in the local pagination, the remote
  date, the layout flag, the local page count and the remote page as it was received.
\<close>

record ConflictDetails =
  cd_localPercentage :: real
  cd_localPage :: int
  cd_remotePercentage :: real
  cd_remotePage :: int
  cd_remoteUpdatedAt :: int
  cd_isFixedLayout :: bool
  cd_localTotalPages :: int
  cd_remotePageRaw :: int

text \<open>
  What one run of \<open>pullProgress\<close> does, from the strategy test on (lines 320-488):
  it returns before fetching (\<open>send\<close>), finds no linkage, finds no remote progress,
  applies a page (the argument of \<open>applyRemoteProgress\<close>), raises a conflict (the
  arguments of \<open>showConflictDialog\<close>), or does nothing.
\<close>

datatype pull_outcome =
    NotPulled
  | NotMatched
  | NoRemoteProgress
  | AppliedRemote int
  | ConflictRaised ConflictDetails
  | NoSyncNeeded

text \<open>\<open>percentageDiff\<close> (line 456), from the inputs of the two fractions.\<close>

definition percentageDiff :: "bool \<Rightarrow> int \<Rightarrow> int option \<Rightarrow> PageInfo option \<Rightarrow> real" where
  "percentageDiff isFixedLayout remotePageRaw remoteTotal pageInfo =
     \<bar>fsub (snd (mapRemotePage isFixedLayout remotePageRaw remoteTotal
                   (pullLocalTotalPages pageInfo)))
           (pullLocalPercentage pageInfo)\<bar>"

text \<open>
  \<open>hardcoverId\<close> is the value of \<open>config?.hardcoverId || (await matchBook())\<close>,
  \<open>userBook\<close> what \<open>getUserBook\<close> returned, \<open>localTimestamp\<close> the value of
  \<open>config?.updatedAt || bookData.book.updatedAt\<close>; \<open>updated_at\<close> is the remote
  date already converted by \<open>new Date(...).getTime()\<close>. The literal \<open>0.05\<close> is the
  double nearest to 5/100.
\<close>

definition pullProgress ::
  "HardcoverSyncStrategy \<Rightarrow> string option \<Rightarrow> HardcoverUserBook option \<Rightarrow> int \<Rightarrow> bool
     \<Rightarrow> PageInfo option \<Rightarrow> pull_outcome" where
  "pullProgress strategy hardcoverId userBook localTimestamp isFixedLayout pageInfo =
     (if strategy = Send then NotPulled
      else if \<not> truthyStr hardcoverId then NotMatched
      else
        (case userBook of
           None \<Rightarrow> NoRemoteProgress
         | Some ub \<Rightarrow>
             (case progress ub of
                None \<Rightarrow> NoRemoteProgress
              | Some pr \<Rightarrow>
                  if \<not> truthy (hp_page pr) then NoRemoteProgress
                  else
                    (let remoteTimestamp = updated_at pr;
                         remoteIsNewer = (remoteTimestamp > localTimestamp);
                         remotePageRaw = the (hp_page pr);
                         localPage = pullLocalPage pageInfo;
                         localTotalPages = pullLocalTotalPages pageInfo;
                         localPercentage = pullLocalPercentage pageInfo;
                         mapped = mapRemotePage isFixedLayout remotePageRaw
                                    (remoteTotalPages ub) localTotalPages;
                         remotePage = fst mapped;
                         remotePercentage = snd mapped;
                         diff = \<bar>fsub remotePercentage localPercentage\<bar>
                     in if strategy = Receive \<or> (strategy = Silent \<and> remoteIsNewer)
                        then AppliedRemote remotePage
                        else if strategy = Prompt \<and> diff > toDouble (5 / 100)
                        then ConflictRaised
                               \<lparr> cd_localPercentage = localPercentage,
                                 cd_localPage = localPage,
                                 cd_remotePercentage = remotePercentage,
                                 cd_remotePage = remotePage,
                                 cd_remoteUpdatedAt = updated_at pr,
                                 cd_isFixedLayout = isFixedLayout,
                                 cd_localTotalPages = localTotalPages,
                                 cd_remotePageRaw = remotePageRaw \<rparr>
                        else NoSyncNeeded))))"

fun raisesConflict :: "pull_outcome \<Rightarrow> bool" where
  "raisesConflict (ConflictRaised details) = True"
| "raisesConflict other = False"

section \<open>Book matcher\<close>

text \<open>
  A candidate of the remote catalogue; \<open>hb_authors\<close> are the names of its authors
  (\<open>hb.authors.map((a) => a.name)\<close>). Titles, authors and ISBNs are lists of UTF-16
  code units.
\<close>

record HardcoverBook =
  hb_id :: string
  hb_title :: js_string
  hb_authors :: "js_string list"
  isbn_10 :: js_string
  isbn_13 :: js_string

record Book =
  title :: js_string
  author :: js_string
  isbn :: "js_string option"

text \<open>\<open>join(' ')\<close>: the names with one space (code unit 32) between them.\<close>

fun joinSpace :: "js_string list \<Rightarrow> js_string" where
  "joinSpace [] = []"
| "joinSpace [a] = a"
| "joinSpace (a # b # rest) = a @ [32] @ joinSpace (b # rest)"

text \<open>
  \<open>String.prototype.toLowerCase\<close> is defined by the case mappings of the Unicode
  character database, which are not part of the client: the matcher is modelled for an
  arbitrary function \<open>toLowerCase\<close>, a parameter of \<open>scoreCandidate\<close> and
  \<open>matchBook\<close>. On a string of ASCII characters \<open>toLowerCase\<close> is
  \<open>asciiLowerCase\<close>, which adds 32 to the code units of \<open>A\<close> to \<open>Z\<close>; the
  concrete inputs below are such strings.
\<close>

definition asciiLowerCase :: "js_string \<Rightarrow> js_string" where
  "asciiLowerCase s = map (\<lambda>c. if 65 \<le> c \<and> c \<le> 90 then c + 32 else c) s"

text \<open>
  \<open>levenshteinDistance\<close> (lines 802-824). Row \<open>i\<close> of the matrix starts as \<open>[i]\<close>
  and the inner loop appends \<open>matrix[i][j]\<close> for \<open>j = 1 .. str1.length\<close>; each
  entry reads \<open>matrix[i-1][j-1]\<close>, \<open>matrix[i][j-1]\<close> and \<open>matrix[i-1][j]\<close>.
  \<open>fillRow\<close> is the inner loop: it walks \<open>str1\<close> with the part of row \<open>i-1\<close>
  from column \<open>j-1\<close> on and the entry just written to its left. \<open>fillRows\<close> is the
  outer loop over the code units of \<open>str2\<close>, carrying row \<open>i-1\<close>.
\<close>

fun fillRow :: "'a \<Rightarrow> 'a list \<Rightarrow> nat list \<Rightarrow> nat \<Rightarrow> nat list" where
  "fillRow c [] prevRow left = []"
| "fillRow c (x # xs) (diag # up # prevRow) left =
     (let v = (if c = x then diag else min (diag + 1) (min (left + 1) (up + 1)))
      in v # fillRow c xs (up # prevRow) v)"
| "fillRow c (x # xs) prevRow left = []"

fun fillRows :: "'a list \<Rightarrow> 'a list \<Rightarrow> nat \<Rightarrow> nat list \<Rightarrow> nat list" where
  "fillRows str1 [] i prev = prev"
| "fillRows str1 (c # cs) i prev = fillRows str1 cs (i + 1) (i # fillRow c str1 prev i)"

definition levenshteinDistance :: "'a list \<Rightarrow> 'a list \<Rightarrow> nat" where
  "levenshteinDistance str1 str2 = last (fillRows str1 str2 1 [0 ..< length str1 + 1])"

text \<open>
  \<open>stringSimilarity\<close> (lines 794-800). The length and the distance are integers, and
  so is their difference; the quotient is a double.
\<close>

definition stringSimilarity :: "'a list \<Rightarrow> 'a list \<Rightarrow> real" where
  "stringSimilarity str1 str2 =
     (let longer = (if length str1 > length str2 then str1 else str2);
          shorter = (if length str1 > length str2 then str2 else str1)
      in if length longer = 0 then 1
         else (let editDistance = levenshteinDistance longer shorter
               in fdiv (real (length longer) - real editDistance) (real (length longer))))"

text \<open>The score of one candidate (lines 771-781): \<open>score\<close> starts at 0 and is added to twice.\<close>

definition scoreCandidate :: "(js_string \<Rightarrow> js_string) \<Rightarrow> Book \<Rightarrow> HardcoverBook \<Rightarrow> real" where
  "scoreCandidate toLowerCase book hb =
     (let titleMatch = stringSimilarity (toLowerCase (title book)) (toLowerCase (hb_title hb));
          score = fadd 0 (fmul titleMatch 70);
          authorNames = toLowerCase (joinSpace (hb_authors hb));
          authorMatch = stringSimilarity (toLowerCase (author book)) authorNames
      in fadd score (fmul authorMatch 30))"

text \<open>
  \<open>matchBook\<close> (lines 756-792), given what the two searches return: \<open>isbnResults\<close>
  for the ISBN query (used only when the book has an ISBN) and \<open>results\<close> for the
  title and author query. \<open>Array.prototype.sort\<close> is stable, and so is \<open>sort_key\<close>;
  sorting by the negated score puts the highest score first.
\<close>

definition exactIsbnMatch :: "Book \<Rightarrow> HardcoverBook list \<Rightarrow> HardcoverBook option" where
  "exactIsbnMatch book isbnResults =
     (if truthyStr (isbn book)
      then find (\<lambda>hb. Some (isbn_13 hb) = isbn book \<or> Some (isbn_10 hb) = isbn book) isbnResults
      else None)"

definition matchBook ::
  "(js_string \<Rightarrow> js_string) \<Rightarrow> Book \<Rightarrow> HardcoverBook list \<Rightarrow> HardcoverBook list
     \<Rightarrow> HardcoverBook option" where
  "matchBook toLowerCase book isbnResults results =
     (case exactIsbnMatch book isbnResults of
        Some exactMatch \<Rightarrow> Some exactMatch
      | None \<Rightarrow>
          if length results > 0
          then (let scored = map (\<lambda>hb. (hb, scoreCandidate toLowerCase book hb)) results;
                    ranked = sort_key (\<lambda>p. - snd p) scored
                in case ranked of
                     [] \<Rightarrow> None
                   | best # _ \<Rightarrow> if snd best > 60 then Some (fst best) else None)
          else None)"

text \<open>
  The Levenshtein distance as it is usually defined, by recursion on prefixes:
  \<open>levPrefix a b i j\<close> is the distance between the first \<open>i\<close> elements of \<open>a\<close>
  and the first \<open>j\<close> elements of \<open>b\<close>, the least number of deletions, insertions
  and substitutions. The similarity the matcher is specified with is 1 minus the
  distance divided by the length of the longer string (1 for two empty strings), a
  real number.
\<close>

fun levPrefix :: "'a list \<Rightarrow> 'a list \<Rightarrow> nat \<Rightarrow> nat \<Rightarrow> nat" where
  "levPrefix a b 0 j = j"
| "levPrefix a b (Suc i) 0 = Suc i"
| "levPrefix a b (Suc i) (Suc j) =
     min (levPrefix a b i (Suc j) + 1)
       (min (levPrefix a b (Suc i) j + 1)
            (levPrefix a b i j + (if a ! i = b ! j then 0 else 1)))"

definition levenshtein :: "'a list \<Rightarrow> 'a list \<Rightarrow> nat" where
  "levenshtein a b = levPrefix a b (length a) (length b)"

definition similaritySpec :: "'a list \<Rightarrow> 'a list \<Rightarrow> real" where
  "similaritySpec a b =
     (if a = [] \<and> b = [] then 1
      else 1 - real (levenshtein a b) / real (max (length a) (length b)))"

section \<open>Duplicate-session cleanup\<close>

record UserBookRead =
  read_id :: int
  progress_pages :: "int option"

record CleanupResult =
  deleted :: nat
  kept :: "int option"

definition pagesOr0 :: "UserBookRead \<Rightarrow> int" where
  "pagesOr0 r = (case progress_pages r of None \<Rightarrow> 0 | Some n \<Rightarrow> n)"

text \<open>The first loop of \<open>cleanupDuplicateReads\<close> (lines 876-881).\<close>

fun findBestRead :: "UserBookRead \<Rightarrow> UserBookRead list \<Rightarrow> UserBookRead" where
  "findBestRead bestRead [] = bestRead"
| "findBestRead bestRead (r # rs) =
     findBestRead (if pagesOr0 r > pagesOr0 bestRead then r else bestRead) rs"

text \<open>
  The second loop (lines 886-895). \<open>deleteRead\<close> tells whether the delete call for an
  id succeeds; the result is the counter and the ids \<open>deleteRead\<close> was called with,
  in order.
\<close>

fun deleteOthers :: "(int \<Rightarrow> bool) \<Rightarrow> int \<Rightarrow> UserBookRead list \<Rightarrow> nat \<Rightarrow> nat \<times> int list" where
  "deleteOthers deleteRead bestId [] n = (n, [])"
| "deleteOthers deleteRead bestId (r # rs) n =
     (if read_id r \<noteq> bestId
      then (let success = deleteRead (read_id r);
                n1 = (if success then n + 1 else n)
            in case deleteOthers deleteRead bestId rs n1 of
                 (m, calls) \<Rightarrow> (m, read_id r # calls))
      else deleteOthers deleteRead bestId rs n)"

text \<open>
  \<open>cleanupDuplicateReads\<close> (lines 864-903), given the list \<open>getAllReads\<close> returned
  (empty when that call fails).
\<close>

definition cleanupDuplicateReads ::
  "(int \<Rightarrow> bool) \<Rightarrow> UserBookRead list \<Rightarrow> CleanupResult \<times> int list" where
  "cleanupDuplicateReads deleteRead reads =
     (case reads of
        [] \<Rightarrow> (\<lparr> deleted = 0, kept = None \<rparr>, [])
      | first # _ \<Rightarrow>
          if length reads \<le> 1 then (\<lparr> deleted = 0, kept = None \<rparr>, [])
          else (let bestRead = findBestRead first reads
                in case deleteOthers deleteRead (read_id bestRead) reads 0 of
                     (n, calls) \<Rightarrow> (\<lparr> deleted = n, kept = Some (read_id bestRead) \<rparr>, calls)))"

section \<open>Writing progress\<close>

text \<open>
  The two mutations \<open>updateProgress\<close> sends, with their variables, and what comes
  back: the \<open>update_user_book_read\<close> or \<open>insert_user_book_read\<close> member of the
  data, which may be absent and has an optional \<open>error\<close> and an optional
  \<open>user_book_read\<close>.
\<close>

datatype request =
    UPDATE_PROGRESS_MUTATION int int "int option" "string option"
  | CREATE_READ_MUTATION string int string "int option"

record UserBookReadResult =
  ubr_id :: int
  ubr_progress_pages :: "int option"
  ubr_edition_id :: int
  ubr_started_at :: string

record MutationPayload =
  payload_error :: "string option"
  user_book_read :: "UserBookReadResult option"

record UpdateResult =
  success :: bool
  res_readId :: "int option"
  res_editionId :: "int option"
  res_startedAt :: "string option"

definition failedResult :: UpdateResult where
  "failedResult = \<lparr> success = False, res_readId = None, res_editionId = None, res_startedAt = None \<rparr>"

definition succeededResult :: "UserBookReadResult \<Rightarrow> UpdateResult" where
  "succeededResult userBookRead =
     \<lparr> success = True, res_readId = Some (ubr_id userBookRead),
       res_editionId = Some (ubr_edition_id userBookRead),
       res_startedAt = Some (ubr_started_at userBookRead) \<rparr>"

text \<open>
  One pass through the \<open>if (readId)\<close> branch (lines 533-601) ends by returning a
  result, by throwing, or by returning the promise of a second call to
  \<open>updateProgress\<close> with \<open>readId = undefined\<close>.
\<close>

datatype update_step = Settled "thrown + UpdateResult" | FallBackToCreate

definition updateBranch ::
  "(request \<Rightarrow> thrown + MutationPayload option) \<Rightarrow> real \<Rightarrow> int \<Rightarrow> int option \<Rightarrow> string option
     \<Rightarrow> update_step \<times> request" where
  "updateBranch gql page rid editionId startedAt =
     (let variables = UPDATE_PROGRESS_MUTATION rid \<lfloor>page\<rfloor>
                        (if truthy editionId then editionId else None)
                        (if truthyStr startedAt then startedAt else None)
      in (case gql variables of
            Inl e \<Rightarrow> Settled (Inl e)
          | Inr result \<Rightarrow>
              if truthyStr (case result of None \<Rightarrow> None | Some r \<Rightarrow> payload_error r)
              then FallBackToCreate
              else (case (case result of None \<Rightarrow> None | Some r \<Rightarrow> user_book_read r) of
                      None \<Rightarrow> Settled (Inr failedResult)
                    | Some userBookRead \<Rightarrow>
                        if ubr_progress_pages userBookRead = None then FallBackToCreate
                        else Settled (Inr (succeededResult userBookRead))),
          variables))"

text \<open>The \<open>else\<close> branch (lines 602-667); \<open>today\<close> is the current date as a string.\<close>

definition createBranch ::
  "(request \<Rightarrow> thrown + MutationPayload option) \<Rightarrow> string \<Rightarrow> string \<Rightarrow> real \<Rightarrow> int option
     \<Rightarrow> string option \<Rightarrow> (thrown + UpdateResult) \<times> request" where
  "createBranch gql today userBookId page editionId startedAt =
     (let variables = CREATE_READ_MUTATION userBookId \<lfloor>page\<rfloor>
                        (if truthyStr startedAt then the startedAt else today)
                        (if truthy editionId then editionId else None)
      in (case gql variables of
            Inl e \<Rightarrow> Inl e
          | Inr result \<Rightarrow>
              (case (case result of None \<Rightarrow> None | Some r \<Rightarrow> payload_error r) of
                 Some error \<Rightarrow>
                   if error \<noteq> []
                   then (if str_includes error ''Couldn't find UserBook''
                         then Inl (Error ''HARDCOVER_INVALID_USER_BOOK'')
                         else Inr failedResult)
                   else (case (case result of None \<Rightarrow> None | Some r \<Rightarrow> user_book_read r) of
                           None \<Rightarrow> Inr failedResult
                         | Some userBookRead \<Rightarrow> Inr (succeededResult userBookRead))
               | None \<Rightarrow>
                   (case (case result of None \<Rightarrow> None | Some r \<Rightarrow> user_book_read r) of
                      None \<Rightarrow> Inr failedResult
                    | Some userBookRead \<Rightarrow> Inr (succeededResult userBookRead))),
          variables))"

text \<open>The \<open>catch\<close> of \<open>updateProgress\<close> (lines 668-671).\<close>

definition catchAll :: "thrown + UpdateResult \<Rightarrow> thrown + UpdateResult" where
  "catchAll r = (case r of Inl e \<Rightarrow> Inr failedResult | Inr v \<Rightarrow> Inr v)"

text \<open>
  \<open>updateProgress\<close> (lines 521-672): what the returned promise settles to (\<open>Inl\<close>
  when it rejects) and the requests sent, in order. \<open>gql\<close> is what
  \<open>graphqlRequest\<close> returns or throws for a request. The promise of the second call
  is returned without \<open>await\<close>, so its outcome is passed on as it is.
\<close>

function updateProgress ::
  "(request \<Rightarrow> thrown + MutationPayload option) \<Rightarrow> string \<Rightarrow> string \<Rightarrow> real \<Rightarrow> int option
     \<Rightarrow> int option \<Rightarrow> string option \<Rightarrow> (thrown + UpdateResult) \<times> request list" where
  "updateProgress gql today userBookId page readId editionId startedAt =
     (case (if truthy readId then readId else None) of
        Some rid \<Rightarrow>
          (case updateBranch gql page rid editionId startedAt of
             (Settled r, sent) \<Rightarrow> (catchAll r, [sent])
           | (FallBackToCreate, sent) \<Rightarrow>
               (case updateProgress gql today userBookId page None editionId startedAt of
                  (r, later) \<Rightarrow> (r, sent # later)))
      | None \<Rightarrow>
          (case createBranch gql today userBookId page editionId startedAt of
             (r, sent) \<Rightarrow> (catchAll r, [sent])))"
  by pat_completeness auto
termination
  by (relation "measure (\<lambda>(gql, today, userBookId, page, readId, editionId, startedAt).
                            if truthy readId then 1 else 0)")
     (auto simp: truthy_def split: if_splits)

declare updateProgress.simps [simp del]

fun isCreate :: "request \<Rightarrow> bool" where
  "isCreate (CREATE_READ_MUTATION userBookId pages started edition) = True"
| "isCreate (UPDATE_PROGRESS_MUTATION rid pages edition started) = False"

section \<open>Sync orchestrator: the end of a push\<close>

record BookConfig =
  hardcoverId :: "string option"
  hardcoverReadId :: "int option"
  hardcoverEditionId :: "int option"
  hardcoverStartedAt :: "string option"
  hardcoverLastSynced :: "int option"

datatype SyncState = Idle | Checking | Conflict | Synced | Failed | Matching

record PushState =
  config :: BookConfig
  syncState :: SyncState
  needsMatching :: bool

text \<open>
  \<open>a || b\<close> on optional numbers and strings, as in
  \<open>result.readId || currentConfig?.hardcoverReadId\<close>.
\<close>

definition orElse :: "int option \<Rightarrow> int option \<Rightarrow> int option" where
  "orElse a b = (if truthy a then a else b)"

definition orElseStr :: "string option \<Rightarrow> string option \<Rightarrow> string option" where
  "orElseStr a b = (if truthyStr a then a else b)"

text \<open>
  The \<open>try\<close>/\<open>catch\<close> around the call of \<open>updateProgress\<close> in
  \<open>pushProgressInternal\<close> (\<open>useHardcoverSync.ts\<close>, lines 667-771), on the
  linkage, the sync state and the re-match flag; the toasts are left out. \<open>Failed\<close>
  stands for the sync state \<open>'error'\<close>. \<open>settled\<close> is what the promise of
  \<open>updateProgress\<close> settled to. The \<open>catch\<close> reads the message of what was
  thrown; for a thrown value that is not an \<open>Error\<close> the model only records the
  error state.
\<close>

definition afterUpdateProgress :: "int \<Rightarrow> thrown + UpdateResult \<Rightarrow> PushState \<Rightarrow> PushState" where
  "afterUpdateProgress now settled st =
     (case settled of
        Inr result \<Rightarrow>
          if success result
          then st\<lparr> config := (config st)\<lparr>
                      hardcoverReadId := orElse (res_readId result) (hardcoverReadId (config st)),
                      hardcoverEditionId := orElse (res_editionId result) (hardcoverEditionId (config st)),
                      hardcoverStartedAt := orElseStr (res_startedAt result) (hardcoverStartedAt (config st)),
                      hardcoverLastSynced := Some now \<rparr>,
                   syncState := Synced \<rparr>
          else st\<lparr> syncState := Failed \<rparr>
      | Inl (Error errorMessage) \<Rightarrow>
          if str_includes errorMessage ''HARDCOVER_CIRCUIT_OPEN''
          then st\<lparr> syncState := Failed \<rparr>
          else if str_includes errorMessage ''HARDCOVER_INVALID_USER_BOOK''
          then st\<lparr> config := (config st)\<lparr> hardcoverId := None, hardcoverReadId := None,
                                             hardcoverEditionId := None,
                                             hardcoverStartedAt := None \<rparr>,
                   needsMatching := True, syncState := Failed \<rparr>
          else st\<lparr> syncState := Failed \<rparr>
      | Inl NonError \<Rightarrow> st\<lparr> syncState := Failed \<rparr>)"

text \<open>
  The push from the call of \<open>updateProgress\<close> on (lines 667-771), for a book whose
  linkage id is \<open>linkId\<close>; \<open>sentPage\<close> is the page already translated.
\<close>

definition pushProgressInternal ::
  "(request \<Rightarrow> thrown + MutationPayload option) \<Rightarrow> string \<Rightarrow> int \<Rightarrow> string \<Rightarrow> int
     \<Rightarrow> PushState \<Rightarrow> PushState \<times> request list" where
  "pushProgressInternal gql today now linkId sentPage st =
     (case updateProgress gql today linkId (real_of_int sentPage) (hardcoverReadId (config st))
             (hardcoverEditionId (config st)) (hardcoverStartedAt (config st)) of
        (settled, sent) \<Rightarrow> (afterUpdateProgress now settled st, sent))"

section \<open>Concrete inputs\<close>

text \<open>A configured client with a fresh gate, and a gate opened by a failure at time 2010.\<close>

definition exampleSettings :: HardcoverSettings where
  "exampleSettings = \<lparr> apiToken = ascii ''token'', rateLimitBuffer = 50 \<rparr>"

definition freshClient :: HardcoverClient where
  "freshClient = \<lparr> requestTimestamps = [], circuitBreaker = initialBreaker \<rparr>"

definition openedGate :: CircuitBreakerState where
  "openedGate = \<lparr> state = OPEN, failureCount = 3, lastFailureTime = 2010,
                  halfOpenAttempts = 0, hasNotifiedDisconnect = False \<rparr>"



text \<open>
  The local book \<open>Dune\<close> by Frank Herbert, a candidate with the same title and
  author, and two other books of the same author.
\<close>

definition duneBook :: Book where
  "duneBook = \<lparr> title = ascii ''Dune'', author = ascii ''Frank Herbert'', isbn = None \<rparr>"

definition duneCandidate :: HardcoverBook where
  "duneCandidate = \<lparr> hb_id = ''312'', hb_title = ascii ''Dune'',
                     hb_authors = [ascii ''Frank Herbert''], isbn_10 = [], isbn_13 = [] \<rparr>"

definition childrenOfDune :: HardcoverBook where
  "childrenOfDune = \<lparr> hb_id = ''314'', hb_title = ascii ''Children of Dune'',
                      hb_authors = [ascii ''Frank Herbert''], isbn_10 = [], isbn_13 = [] \<rparr>"

definition duneMessiah :: HardcoverBook where
  "duneMessiah = \<lparr> hb_id = ''313'', hb_title = ascii ''Dune Messiah'',
                   hb_authors = [ascii ''Frank Herbert''], isbn_10 = [], isbn_13 = [] \<rparr>"

text \<open>
  A local book and a candidate whose title differs from it in 3 of 11 places and whose
  joined author names differ from its author in 23 of 33 places.
\<close>

definition sequelBook :: Book where
  "sequelBook = \<lparr> title = ascii ''The Book'', author = ascii ''Ann Author'', isbn = None \<rparr>"

definition sequelCandidate :: HardcoverBook where
  "sequelCandidate =
     \<lparr> hb_id = ''77'', hb_title = ascii ''The Book II'',
       hb_authors = [ascii ''Ann Author'', ascii ''Bob Coauthor'', ascii ''Cy Writer''],
       isbn_10 = [], isbn_13 = [] \<rparr>"

text \<open>The three read sessions of the cleanup example.\<close>

definition exampleReads :: "UserBookRead list" where
  "exampleReads = [\<lparr> read_id = 1, progress_pages = Some 40 \<rparr>,
                   \<lparr> read_id = 2, progress_pages = Some 120 \<rparr>,
                   \<lparr> read_id = 3, progress_pages = Some 80 \<rparr>]"

text \<open>
  A remote service that answers every create-session call with the error that the
  linkage does not exist, and every update call with an error; a linked book with no
  read session; and a linked book with a read session.
\<close>

definition linkGoneService :: "request \<Rightarrow> thrown + MutationPayload option" where
  "linkGoneService req =
     (if isCreate req
      then Inr (Some \<lparr> payload_error = Some ''Couldn't find UserBook'', user_book_read = None \<rparr>)
      else Inr (Some \<lparr> payload_error = Some ''Read not found'', user_book_read = None \<rparr>))"

definition linkedBook :: PushState where
  "linkedBook = \<lparr> config = \<lparr> hardcoverId = Some ''42'', hardcoverReadId = None,
                             hardcoverEditionId = None, hardcoverStartedAt = None,
                             hardcoverLastSynced = None \<rparr>,
                  syncState = Synced, needsMatching = False \<rparr>"

definition linkedBookWithRead :: PushState where
  "linkedBookWithRead = \<lparr> config = \<lparr> hardcoverId = Some ''42'', hardcoverReadId = Some 7,
                                     hardcoverEditionId = Some 9,
                                     hardcoverStartedAt = Some ''2025-01-01'',
                                     hardcoverLastSynced = Some 1000 \<rparr>,
                          syncState = Synced, needsMatching = False \<rparr>"



section \<open>Properties of the failure gate\<close>

lemma startsWith_append [simp]: "startsWith (p @ r) p"
  by (induction p) auto

subsection \<open>Failures that reach the gate\<close>

lemma recordFailure_not_half_open:
  "\<not> str_includes e ''AUTH_FAILED'' \<Longrightarrow> state (recordFailure t e cb) \<noteq> HALF_OPEN"
  by (cases "state cb") (auto simp: recordFailure_def Let_def)

lemma recordFailure_closed_result:
  "\<not> str_includes e ''AUTH_FAILED'' \<Longrightarrow> state (recordFailure t e cb) = CLOSED \<Longrightarrow>
     state cb = CLOSED \<and> failureCount (recordFailure t e cb) = failureCount cb + 1
     \<and> failureCount cb + 1 < CIRCUIT_BREAKER_THRESHOLD"
  by (cases "state cb") (auto simp: recordFailure_def Let_def split: if_splits)

lemma recordFailures_open_or_counting:
  "state cb \<noteq> HALF_OPEN \<Longrightarrow> \<forall>f \<in> set fs. \<not> str_includes (snd f) ''AUTH_FAILED'' \<Longrightarrow>
     state (recordFailures fs cb) = OPEN
     \<or> (state (recordFailures fs cb) = CLOSED \<and> state cb = CLOSED
         \<and> (fs = [] \<or> failureCount cb + length fs < CIRCUIT_BREAKER_THRESHOLD))"
proof (induction fs arbitrary: cb)
  case Nil
  then show ?case by (cases "state cb") auto
next
  case (Cons f fs)
  obtain t e where f: "f = (t, e)" by (cases f)
  let ?cb' = "recordFailure t e cb"
  from Cons.prems f have na: "\<not> str_includes e ''AUTH_FAILED''" by auto
  have nh: "state ?cb' \<noteq> HALF_OPEN" using na by (rule recordFailure_not_half_open)
  from Cons.IH [OF nh] Cons.prems
  have ih: "state (recordFailures fs ?cb') = OPEN
     \<or> (state (recordFailures fs ?cb') = CLOSED \<and> state ?cb' = CLOSED
         \<and> (fs = [] \<or> failureCount ?cb' + length fs < CIRCUIT_BREAKER_THRESHOLD))"
    by auto
  show ?case
  proof (cases "state (recordFailures fs ?cb') = OPEN")
    case True
    then show ?thesis by (simp add: f)
  next
    case False
    with ih have c: "state (recordFailures fs ?cb') = CLOSED" "state ?cb' = CLOSED"
      and n: "fs = [] \<or> failureCount ?cb' + length fs < CIRCUIT_BREAKER_THRESHOLD" by auto
    from recordFailure_closed_result [OF na c(2)]
    have "state cb = CLOSED" "failureCount ?cb' = failureCount cb + 1"
      "failureCount cb + 1 < CIRCUIT_BREAKER_THRESHOLD" by auto
    with c n show ?thesis by (auto simp: f)
  qed
qed

text \<open>
  Three or more failures in a row, none of them an authentication failure, open a
  closed gate once \<open>recordFailure\<close> is called for each of them.
\<close>

lemma recordFailures_opens:
  assumes "state cb = CLOSED" "3 \<le> length fs"
    "\<forall>f \<in> set fs. \<not> str_includes (snd f) ''AUTH_FAILED''"
  shows "state (recordFailures fs cb) = OPEN"
  using recordFailures_open_or_counting [of cb fs] assms
  by (auto simp: CIRCUIT_BREAKER_THRESHOLD_def)

text \<open>
  While the gate is open and the timeout has not elapsed, a request is rejected with
  the \<open>HARDCOVER_CIRCUIT_OPEN\<close> error, \<open>fetch\<close> is not called, and neither the
  gate nor the timestamp list changes.
\<close>

lemma graphqlRequest_rejects_while_open:
  assumes "state (circuitBreaker c) = OPEN"
    "now - lastFailureTime (circuitBreaker c) < CIRCUIT_BREAKER_TIMEOUT"
  shows "\<exists>reason. graphqlRequest cfg now tdone outcome c
           = (Inl (Error (''HARDCOVER_CIRCUIT_OPEN: '' @ reason)), False, c)"
  using assms by (simp add: graphqlRequest_def canMakeRequest_def Let_def)

text \<open>
  An authentication failure reported to the gate leaves the state as it is, in every
  state, and adds one to the counter.
\<close>

lemma recordFailure_auth:
  "str_includes e ''AUTH_FAILED'' \<Longrightarrow>
     state (recordFailure t e cb) = state cb
     \<and> failureCount (recordFailure t e cb) = failureCount cb + 1"
  by (simp add: recordFailure_def Let_def)

subsection \<open>Failures by HTTP status\<close>

text \<open>
  C1. The claim: three or more consecutive request failures that are not authentication
  failures open a closed gate, and requests are then rejected with
  \<open>HARDCOVER_CIRCUIT_OPEN\<close> for 60 seconds. Three requests in a row that the server
  answers with HTTP status 500 all fail with \<open>HARDCOVER_SERVER_ERROR\<close>, and the gate
  is afterwards exactly the fresh gate: closed, with no failure counted. The error
  thrown in the \<open>try\<close> block for a response that is not \<open>ok\<close> is re-thrown by the
  \<open>catch\<close> block because its message starts with \<open>HARDCOVER_\<close>, and
  \<open>recordFailure\<close> is never called for it.
\<close>

theorem http_failures_leave_gate_closed:
  "runRequests exampleSettings
     [(0, 10, HttpNotOk 500 :: unit fetch_outcome), (1000, 1010, HttpNotOk 500),
      (2000, 2010, HttpNotOk 500)] freshClient
   = ([(Inl (Error ''HARDCOVER_SERVER_ERROR''), True),
       (Inl (Error ''HARDCOVER_SERVER_ERROR''), True),
       (Inl (Error ''HARDCOVER_SERVER_ERROR''), True)],
      \<lparr> requestTimestamps = [0, 1000, 2000], circuitBreaker = initialBreaker \<rparr>)"
  by (simp add: exampleSettings_def freshClient_def graphqlRequest_def canMakeRequest_def
        initialBreaker_def trim_def isWhitespace_def ascii_def checkRateLimit_def RATE_LIMIT_WINDOW_def
        tryBlock_def catchBlock_def Let_def)

subsection \<open>The probe\<close>

text \<open>
  Admission checks one after another. When the gate is open and the timeout has
  elapsed, the check that moves it to half-open is allowed and sets the probe counter
  to 0, so the next check is allowed as well; the checks after that are blocked.
\<close>

lemma admissions_half_open_used:
  "state g = HALF_OPEN \<Longrightarrow> halfOpenAttempts g = 1 \<Longrightarrow>
     admissions ts g = (replicate (length ts) False, g)"
  by (induction ts) (auto simp: canMakeRequest_def CIRCUIT_BREAKER_HALF_OPEN_REQUESTS_def)

lemma admissions_half_open_fresh:
  "state g = HALF_OPEN \<Longrightarrow> halfOpenAttempts g = 0 \<Longrightarrow>
     admissions (t # ts) g = (True # replicate (length ts) False, g\<lparr> halfOpenAttempts := 1 \<rparr>)"
  by (simp add: canMakeRequest_def CIRCUIT_BREAKER_HALF_OPEN_REQUESTS_def
        admissions_half_open_used)

lemma admissions_after_timeout:
  assumes "state cb = OPEN" and "now - lastFailureTime cb \<ge> CIRCUIT_BREAKER_TIMEOUT"
  shows "admissions (now # t # ts) cb
           = (True # True # replicate (length ts) False,
              cb\<lparr> state := HALF_OPEN, halfOpenAttempts := 1 \<rparr>)"
proof -
  have move: "canMakeRequest now cb = (None, cb\<lparr> state := HALF_OPEN, halfOpenAttempts := 0 \<rparr>)"
    using assms by (simp add: canMakeRequest_def)
  have "admissions (t # ts) (cb\<lparr> state := HALF_OPEN, halfOpenAttempts := 0 \<rparr>)
          = (True # replicate (length ts) False,
             (cb\<lparr> state := HALF_OPEN, halfOpenAttempts := 0 \<rparr>)\<lparr> halfOpenAttempts := 1 \<rparr>)"
    by (rule admissions_half_open_fresh) simp_all
  then show ?thesis by (simp add: move del: admissions.simps(2)) (simp add: move)
qed

text \<open>
  What is reported to the gate in the half-open state: a success closes it and sets the
  counter to 0; a failure that is not an authentication failure opens it, pins the
  counter at the threshold and restarts the timeout.
\<close>

lemma recordSuccess_half_open:
  "state g = HALF_OPEN \<Longrightarrow> state (recordSuccess g) = CLOSED \<and> failureCount (recordSuccess g) = 0"
  by (simp add: recordSuccess_def)

lemma recordFailure_half_open:
  "state g = HALF_OPEN \<Longrightarrow> \<not> str_includes e ''AUTH_FAILED'' \<Longrightarrow>
     state (recordFailure t e g) = OPEN
     \<and> failureCount (recordFailure t e g) = CIRCUIT_BREAKER_THRESHOLD
     \<and> lastFailureTime (recordFailure t e g) = t"
  by (simp add: recordFailure_def Let_def)

text \<open>
  A request that the server answers with an HTTP status other than \<open>ok\<close> reports
  nothing to the gate: the gate after the request is the gate after the admission
  check.
\<close>

lemma http_failure_not_reported:
  "circuitBreaker (snd (snd (graphqlRequest cfg now tdone (HttpNotOk status) c)))
     = snd (canMakeRequest now (circuitBreaker c))"
proof (cases "canMakeRequest now (circuitBreaker c)")
  case (Pair reason cb1)
  have s: "startsWith (''HARDCOVER_API_ERROR_'' @ showNat status) ''HARDCOVER_''"
    using startsWith_append [of "''HARDCOVER_''" "''API_ERROR_'' @ showNat status"] by simp
  show ?thesis
    using Pair s
    by (cases reason) (simp_all add: graphqlRequest_def tryBlock_def catchBlock_def Let_def)
qed

text \<open>
  Once the probe counter of a half-open gate has reached 1, every request is rejected,
  whenever it is made: \<open>fetch\<close> is not called and nothing changes.
\<close>

lemma graphqlRequest_rejects_after_probe:
  assumes "state (circuitBreaker c) = HALF_OPEN" and "1 \<le> halfOpenAttempts (circuitBreaker c)"
  shows "graphqlRequest cfg now tdone outcome c
           = (Inl (Error (''HARDCOVER_CIRCUIT_OPEN: ''
                            @ ''Circuit breaker is testing service recovery. Please wait.'')),
              False, c)"
  using assms
  by (simp add: graphqlRequest_def canMakeRequest_def CIRCUIT_BREAKER_HALF_OPEN_REQUESTS_def)

text \<open>
  C2. The claim: after the gate has moved to half-open exactly one request is admitted
  while it stays half-open, and a probe that fails moves it back to open with the
  counter at 3. Three network failures open the gate at time 2010. After the timeout,
  the request of time 62010 moves the gate to half-open and is sent, and the request of
  time 62030 is sent as well: two requests are admitted. Both are answered with HTTP
  status 500 and fail with \<open>HARDCOVER_SERVER_ERROR\<close>, and neither failure reaches
  \<open>recordFailure\<close>, so the gate does not move back to open: it stays half-open with
  its probe used, the time of the last failure still 2010, and the requests of times
  62050 and 200000 are rejected without being sent, as every later request is.
\<close>

theorem failed_probe_leaves_gate_half_open:
  "runRequests exampleSettings
     [(0, 10, ThrowsError ''Failed to fetch'' :: unit fetch_outcome),
      (1000, 1010, ThrowsError ''Failed to fetch''),
      (2000, 2010, ThrowsError ''Failed to fetch''),
      (62010, 62020, HttpNotOk 500),
      (62030, 62040, HttpNotOk 500),
      (62050, 62060, JsonData ()),
      (200000, 200010, JsonData ())] freshClient
   = ([(Inl (Error ''HARDCOVER_NETWORK_ERROR''), True),
       (Inl (Error ''HARDCOVER_NETWORK_ERROR''), True),
       (Inl (Error ''HARDCOVER_NETWORK_ERROR''), True),
       (Inl (Error ''HARDCOVER_SERVER_ERROR''), True),
       (Inl (Error ''HARDCOVER_SERVER_ERROR''), True),
       (Inl (Error (''HARDCOVER_CIRCUIT_OPEN: ''
                      @ ''Circuit breaker is testing service recovery. Please wait.'')), False),
       (Inl (Error (''HARDCOVER_CIRCUIT_OPEN: ''
                      @ ''Circuit breaker is testing service recovery. Please wait.'')), False)],
      \<lparr> requestTimestamps = [62010, 62030],
        circuitBreaker = \<lparr> state = HALF_OPEN, failureCount = 3, lastFailureTime = 2010,
                           halfOpenAttempts = 1, hasNotifiedDisconnect = False \<rparr> \<rparr>)"
  by (simp add: exampleSettings_def freshClient_def graphqlRequest_def canMakeRequest_def
        initialBreaker_def trim_def isWhitespace_def ascii_def checkRateLimit_def
        RATE_LIMIT_WINDOW_def CIRCUIT_BREAKER_TIMEOUT_def CIRCUIT_BREAKER_THRESHOLD_def
        CIRCUIT_BREAKER_HALF_OPEN_REQUESTS_def tryBlock_def catchBlock_def recordFailure_def
        recordSuccess_def Let_def)

subsection \<open>Authentication failures\<close>

text \<open>
  C3. The claim: an authentication failure does not increment the failure counter and
  never opens the gate. A response whose JSON body carries the error \<open>Forbidden\<close> is
  classified \<open>HARDCOVER_AUTH_FAILED\<close>, and the counter of a fresh gate is 1
  afterwards. Two such failures followed by one network failure open the gate: the
  authentication failures were counted.
\<close>

theorem auth_failures_are_counted:
  "graphqlRequest exampleSettings 0 10 (JsonErrors (Some ''Forbidden'') :: unit fetch_outcome)
     freshClient
   = (Inl (Error ''HARDCOVER_AUTH_FAILED''), True,
      \<lparr> requestTimestamps = [0],
        circuitBreaker = initialBreaker\<lparr> failureCount := 1, lastFailureTime := 10 \<rparr> \<rparr>)
   \<and> snd (runRequests exampleSettings
        [(0, 10, JsonErrors (Some ''Forbidden'') :: unit fetch_outcome),
         (1000, 1010, JsonErrors (Some ''Unauthorized'')),
         (2000, 2010, ThrowsError ''Failed to fetch'')] freshClient)
     = \<lparr> requestTimestamps = [0, 1000, 2000],
         circuitBreaker = initialBreaker\<lparr> state := OPEN, failureCount := 3,
                                           lastFailureTime := 2010 \<rparr> \<rparr>"
  by (simp add: exampleSettings_def freshClient_def graphqlRequest_def canMakeRequest_def
        initialBreaker_def trim_def isWhitespace_def ascii_def checkRateLimit_def RATE_LIMIT_WINDOW_def
        tryBlock_def catchBlock_def recordFailure_def CIRCUIT_BREAKER_THRESHOLD_def Let_def)

section \<open>Properties of the request throttle\<close>

text \<open>The throttle never rejects: every call appends its arrival time and returns.\<close>

lemma checkRateLimit_records_arrival:
  "snd (checkRateLimit cfg now ts) = filter (\<lambda>t. now - t < RATE_LIMIT_WINDOW) ts @ [now]"
  by (simp add: checkRateLimit_def Let_def)

text \<open>
  A call that finds the window full returns 100 ms after the oldest timestamp has left
  the window; a call that finds room returns at once.
\<close>

lemma checkRateLimit_delay:
  assumes "filter (\<lambda>t. now - t < RATE_LIMIT_WINDOW) ts = oldest # others"
    and "length (oldest # others) \<ge> (if rateLimitBuffer cfg = 0 then 50 else rateLimitBuffer cfg)"
  shows "now + fst (checkRateLimit cfg now ts) = oldest + RATE_LIMIT_WINDOW + 100"
proof -
  from assms(1) have "oldest \<in> set (filter (\<lambda>t. now - t < RATE_LIMIT_WINDOW) ts)" by simp
  then have "now - oldest < RATE_LIMIT_WINDOW" by simp
  then show ?thesis using assms by (simp add: checkRateLimit_def Let_def)
qed

lemma checkRateLimit_no_delay:
  assumes "length (filter (\<lambda>t. now - t < RATE_LIMIT_WINDOW) ts)
             < (if rateLimitBuffer cfg = 0 then 50 else rateLimitBuffer cfg)"
  shows "fst (checkRateLimit cfg now ts) = 0"
  using assms by (simp add: checkRateLimit_def Let_def)

text \<open>
  C4. The claim: at most the budget (50) of requests are admitted within any rolling
  60-second window. Fifty requests arrive at time 0, one at time 1, and fifty more at
  time 60100. The request of time 1 finds the window full and sleeps until 60100, but
  the timestamp it records is 1, its arrival. At 60100 the window is therefore empty
  again, and the fifty requests that follow are admitted at once: 51 requests are
  admitted at time 60100. The same happens with a budget of 5 and requests 100 ms
  apart: the sixth request is held until 60100, and six requests are admitted between
  60100 and 60600.
\<close>

theorem throttle_admits_more_than_budget:
  "throttled exampleSettings (replicate 50 0 @ [1] @ replicate 50 60100) []
     = replicate 50 0 @ replicate 51 60100
   \<and> length (filter (\<lambda>t. 60100 \<le> t \<and> t < 60100 + RATE_LIMIT_WINDOW)
        (throttled exampleSettings (replicate 50 0 @ [1] @ replicate 50 60100) [])) = 51
   \<and> throttled (exampleSettings\<lparr> rateLimitBuffer := 5 \<rparr>)
        [0, 100, 200, 300, 400, 500, 60200, 60300, 60400, 60500, 60600] []
     = [0, 100, 200, 300, 400, 60100, 60200, 60300, 60400, 60500, 60600]"
proof -
  have run: "throttled exampleSettings (replicate 50 0 @ [1] @ replicate 50 60100) []
     = replicate 50 0 @ replicate 51 60100"
    by code_simp
  have small: "throttled (exampleSettings\<lparr> rateLimitBuffer := 5 \<rparr>)
        [0, 100, 200, 300, 400, 500, 60200, 60300, 60400, 60500, 60600] []
     = [0, 100, 200, 300, 400, 60100, 60200, 60300, 60400, 60500, 60600]"
    by code_simp
  show ?thesis unfolding run small by (simp add: RATE_LIMIT_WINDOW_def)
qed

section \<open>Properties of double-precision rounding\<close>

text \<open>\<open>roundHalfEven\<close> returns a nearest integer, and an integer for itself.\<close>

lemma roundHalfEven_error: "\<bar>real_of_int (roundHalfEven x) - x\<bar> \<le> 1 / 2"
proof -
  have "real_of_int \<lfloor>x\<rfloor> \<le> x" "x < real_of_int \<lfloor>x\<rfloor> + 1" by linarith+
  then show ?thesis
    by (auto simp add: roundHalfEven_def Let_def)
qed

lemma roundHalfEven_of_int: "roundHalfEven (real_of_int n) = n"
  by (simp add: roundHalfEven_def)

lemma roundHalfEven_unique:
  assumes "\<bar>x - real_of_int m\<bar> < 1 / 2"
  shows "roundHalfEven x = m"
proof (cases "real_of_int m \<le> x")
  case True
  with assms have "\<lfloor>x\<rfloor> = m" by (intro floor_unique) (auto simp: abs_less_iff)
  with assms True show ?thesis by (simp add: roundHalfEven_def Let_def abs_less_iff)
next
  case False
  with assms have "\<lfloor>x\<rfloor> = m - 1" by (intro floor_unique) (auto simp: abs_less_iff)
  with assms False show ?thesis by (simp add: roundHalfEven_def Let_def abs_less_iff)
qed

text \<open>\<open>floorLog2\<close> is the binary exponent of a positive number.\<close>

lemma int_succ_le_pow2: "(n::int) < 2 ^ m \<Longrightarrow> real_of_int n + 1 \<le> 2 ^ m"
proof -
  assume "n < 2 ^ m"
  then have "n + 1 \<le> 2 ^ m" by simp
  then have "real_of_int (n + 1) \<le> 2 ^ m" by (simp only: of_int_le_numeral_power_cancel_iff)
  then show ?thesis by simp
qed

lemma floorLog2_bounds:
  assumes "0 < x"
  shows "2 powi floorLog2 x \<le> x" and "x < 2 powi (floorLog2 x + 1)"
proof -
  have "2 powi floorLog2 x \<le> x \<and> x < 2 powi (floorLog2 x + 1)"
  proof (cases "1 \<le> x")
    case True
    define n where "n = \<lfloor>x\<rfloor>"
    have n: "1 \<le> n" "real_of_int n \<le> x" "x < real_of_int n + 1"
      using True unfolding n_def by linarith+
    from n(1) have b: "2 ^ nat (bitlen n - 1) \<le> n" "n < 2 ^ nat (bitlen n)"
      using bitlen_bounds [of n] by auto
    have bl: "1 \<le> bitlen n"
    proof (rule ccontr)
      assume "\<not> 1 \<le> bitlen n"
      then have "nat (bitlen n) = 0" by simp
      with b(2) n(1) show False by simp
    qed
    have fl: "floorLog2 x = bitlen n - 1" using True by (simp add: floorLog2_def n_def)
    have "(2::real) ^ nat (bitlen n - 1) \<le> real_of_int n" using b(1) by simp
    then have "(2::real) ^ nat (bitlen n - 1) \<le> x" using n(2) by linarith
    then have lo: "2 powi (bitlen n - 1) \<le> x" using bl by (simp add: power_int_def)
    have "x < (2::real) ^ nat (bitlen n)" using n(3) int_succ_le_pow2 [OF b(2)] by linarith
    then have hi: "x < 2 powi (bitlen n)" using bl by (simp add: power_int_def)
    show ?thesis using lo hi by (simp add: fl)
  next
    case False
    define a where "a = \<lceil>1 / x\<rceil> - 1"
    have x1: "1 < 1 / x" using False assms by simp
    have a: "real_of_int a < 1 / x" "1 / x \<le> real_of_int a + 1"
      unfolding a_def by linarith+
    have a1: "1 \<le> a" using x1 a(2) by linarith
    from a1 have b: "2 ^ nat (bitlen a - 1) \<le> a" "a < 2 ^ nat (bitlen a)"
      using bitlen_bounds [of a] by auto
    have bl: "1 \<le> bitlen a"
    proof (rule ccontr)
      assume "\<not> 1 \<le> bitlen a"
      then have "nat (bitlen a) = 0" by simp
      with b(2) a1 show False by simp
    qed
    have fl: "floorLog2 x = - bitlen a" using False by (simp add: floorLog2_def a_def)
    have "1 / x \<le> 2 ^ nat (bitlen a)" using a(2) int_succ_le_pow2 [OF b(2)] by linarith
    then have "1 \<le> 2 ^ nat (bitlen a) * x" using assms by (simp add: field_simps)
    then have lo: "2 powi (- bitlen a) \<le> x"
      using bl by (simp add: power_int_def field_simps)
    have "(2::real) ^ nat (bitlen a - 1) \<le> real_of_int a" using b(1) by simp
    then have "2 ^ nat (bitlen a - 1) < 1 / x" using a(1) by linarith
    then have h: "2 ^ nat (bitlen a - 1) * x < 1" using assms by (simp add: field_simps)
    have "(2::real) powi (- bitlen a + 1) = 2 powi (- (bitlen a - 1))" by simp
    also have "\<dots> = 1 / 2 powi (bitlen a - 1)" by (rule power_int_minus_divide)
    also have "\<dots> = 1 / 2 ^ nat (bitlen a - 1)" using bl by (simp add: power_int_nonneg_exp)
    finally have eq: "(2::real) powi (- bitlen a + 1) = 1 / 2 ^ nat (bitlen a - 1)" .
    have "x < 1 / 2 ^ nat (bitlen a - 1)" using h by (simp add: pos_less_divide_eq mult.commute)
    then have hi: "x < 2 powi (- bitlen a + 1)" by (simp only: eq)
    show ?thesis using lo hi by (simp add: fl)
  qed
  then show "2 powi floorLog2 x \<le> x" and "x < 2 powi (floorLog2 x + 1)" by auto
qed

lemma floorLog2_unique:
  assumes "0 < x" "2 powi k \<le> x" "x < 2 powi (k + 1)"
  shows "floorLog2 x = k"
proof -
  note b = floorLog2_bounds [OF assms(1)]
  have "(2::real) powi k < 2 powi (floorLog2 x + 1)" using assms(2) b(2) by linarith
  then have 1: "k < floorLog2 x + 1"
    by (metis not_less power_int_increasing one_le_numeral)
  have "(2::real) powi floorLog2 x < 2 powi (k + 1)" using assms(3) b(1) by linarith
  then have 2: "floorLog2 x < k + 1"
    by (metis not_less power_int_increasing one_le_numeral)
  from 1 2 show ?thesis by linarith
qed

text \<open>
  The double of a positive number \<open>x\<close> below \<open>2\<close> to the 53, given the scaling
  \<open>k\<close> that brings it between \<open>2\<close> to the 52 and \<open>2\<close> to the 53, and the integer
  \<open>m\<close> nearest to the scaled number.
\<close>

lemma toDouble_eval:
  assumes "0 < x" and "2 ^ 52 \<le> x * 2 ^ k" and "x * 2 ^ k < 2 ^ 53" and "k \<le> 1074"
    and "\<bar>x * 2 ^ k - real_of_int m\<bar> < 1 / 2"
  shows "toDouble x = real_of_int m / 2 ^ k"
proof -
  have p: "(2::real) powi (- int k) = 1 / 2 ^ k"
    by (simp add: power_int_minus_divide)
  have "(2::real) powi (52 - int k) = 2 ^ 52 * 2 powi (- int k)"
    using power_int_add [of "2::real" 52 "- int k"] by simp
  then have "(2::real) powi (52 - int k) = 2 ^ 52 / 2 ^ k" by (simp add: p)
  moreover have "(2::real) ^ 52 / 2 ^ k \<le> x" using assms(2) by (simp add: pos_divide_le_eq)
  ultimately have lo: "2 powi (52 - int k) \<le> x" by simp
  have "(2::real) powi (52 - int k + 1) = 2 ^ 53 * 2 powi (- int k)"
    using power_int_add [of "2::real" 53 "- int k"] by (simp add: algebra_simps)
  then have "(2::real) powi (52 - int k + 1) = 2 ^ 53 / 2 ^ k" by (simp add: p)
  moreover have "x < (2::real) ^ 53 / 2 ^ k" using assms(3) by (simp add: pos_less_divide_eq)
  ultimately have hi: "x < 2 powi (52 - int k + 1)" by simp
  have "floorLog2 x = 52 - int k" by (rule floorLog2_unique [OF assms(1) lo hi])
  then have e: "max (floorLog2 x - 52) (- 1074) = - int k" using assms(4) by simp
  have td: "toDouble x = real_of_int (roundHalfEven (x / 2 powi (- int k))) * 2 powi (- int k)"
    using assms(1) by (simp add: toDouble_def e Let_def)
  have "x / 2 powi (- int k) = x * 2 ^ k" by (simp add: p)
  then have "roundHalfEven (x / 2 powi (- int k)) = m"
    using assms(5) by (simp add: roundHalfEven_unique)
  then show ?thesis by (simp add: td p)
qed

text \<open>
  Rounding a number that is 0 or of magnitude at least \<open>2\<close> to the \<open>-1022\<close> changes
  it by at most the fraction \<open>2\<close> to the \<open>-53\<close> of itself.
\<close>

lemma toDouble_rel_error:
  assumes "x = 0 \<or> 1 / 2 ^ 1022 \<le> \<bar>x\<bar>"
  shows "\<bar>toDouble x - x\<bar> \<le> \<bar>x\<bar> / 2 ^ 53"
proof (cases "x = 0")
  case True
  then show ?thesis by (simp add: toDouble_def)
next
  case False
  with assms have big: "1 / 2 ^ 1022 \<le> \<bar>x\<bar>" by simp
  have pos: "0 < \<bar>x\<bar>" using False by simp
  define fl where "fl = floorLog2 \<bar>x\<bar>"
  note b = floorLog2_bounds [OF pos, folded fl_def]
  have "(2::real) powi (- 1022) = 1 / 2 ^ 1022" by (simp add: power_int_minus_divide)
  then have "(2::real) powi (- 1022) < 2 powi (fl + 1)" using big b(2) by linarith
  then have "- 1022 < fl + 1" by (metis not_less power_int_increasing one_le_numeral)
  then have e: "max (fl - 52) (- 1074) = fl - 52" by simp
  define r where "r = roundHalfEven (x / 2 powi (fl - 52))"
  have p0: "(0::real) < 2 powi (fl - 52)" by simp
  have td: "toDouble x = real_of_int r * 2 powi (fl - 52)"
    using False by (simp add: toDouble_def e [unfolded fl_def] Let_def r_def fl_def)
  have "\<bar>real_of_int r - x / 2 powi (fl - 52)\<bar> \<le> 1 / 2"
    unfolding r_def by (rule roundHalfEven_error)
  then have "\<bar>real_of_int r - x / 2 powi (fl - 52)\<bar> * 2 powi (fl - 52) \<le> 1 / 2 * 2 powi (fl - 52)"
    using p0 by (simp add: mult_right_mono)
  moreover have "\<bar>real_of_int r - x / 2 powi (fl - 52)\<bar> * 2 powi (fl - 52)
      = \<bar>real_of_int r * 2 powi (fl - 52) - x\<bar>"
  proof -
    have "\<bar>real_of_int r - x / 2 powi (fl - 52)\<bar> * 2 powi (fl - 52)
        = \<bar>(real_of_int r - x / 2 powi (fl - 52)) * 2 powi (fl - 52)\<bar>"
      using p0 by (simp add: abs_mult)
    also have "(real_of_int r - x / 2 powi (fl - 52)) * 2 powi (fl - 52)
        = real_of_int r * 2 powi (fl - 52) - x"
      using p0 by (simp add: left_diff_distrib)
    finally show ?thesis .
  qed
  ultimately have 1: "\<bar>toDouble x - x\<bar> \<le> 1 / 2 * 2 powi (fl - 52)" by (simp add: td)
  have "(2::real) powi fl = 2 powi (fl - 52) * 2 ^ 52"
    using power_int_add [of "2::real" "fl - 52" 52] by simp
  then have "1 / 2 * (2::real) powi (fl - 52) = 2 powi fl / 2 ^ 53" by simp
  also have "\<dots> \<le> \<bar>x\<bar> / 2 ^ 53" using b(1) by (simp add: divide_right_mono)
  finally show ?thesis using 1 by linarith
qed

text \<open>
  An integer of magnitude below \<open>2\<close> to the 53, divided by a power of 2 up to the
  1074th, is a double.
\<close>

lemma toDouble_dyadic:
  assumes "\<bar>n\<bar> < 2 ^ 53" and "k \<le> 1074"
  shows "toDouble (real_of_int n / 2 ^ k) = real_of_int n / 2 ^ k"
proof (cases "n = 0")
  case True
  then show ?thesis by (simp add: toDouble_def)
next
  case False
  define x where "x = real_of_int n / 2 ^ k"
  have x0: "x \<noteq> 0" using False by (simp add: x_def)
  have pos: "0 < \<bar>x\<bar>" using x0 by simp
  define e where "e = max (floorLog2 \<bar>x\<bar> - 52) (- 1074)"
  note b = floorLog2_bounds [OF pos]
  have p: "(2::real) powi (- int k) = 1 / 2 ^ k" by (simp add: power_int_minus_divide)
  have "real_of_int \<bar>n\<bar> < real_of_int (2 ^ 53)" using assms(1) by linarith
  then have "\<bar>x\<bar> < 2 ^ 53 / 2 ^ k" by (simp add: x_def divide_strict_right_mono)
  also have "\<dots> = 2 powi (53 - int k)"
    using power_int_add [of "2::real" 53 "- int k"] by (simp add: p)
  finally have "(2::real) powi floorLog2 \<bar>x\<bar> < 2 powi (53 - int k)" using b(1) by linarith
  then have "floorLog2 \<bar>x\<bar> < 53 - int k" by (metis not_less power_int_increasing one_le_numeral)
  then have ek: "e \<le> - int k" using assms(2) by (simp add: e_def)
  define j where "j = nat (- int k - e)"
  have "(2::real) powi (- int k) = 2 powi e * 2 powi (- int k - e)"
    using power_int_add [of "2::real" e "- int k - e"] by simp
  also have "(2::real) powi (- int k - e) = 2 ^ j" using ek by (simp add: j_def power_int_def)
  finally have pk: "1 / (2::real) ^ k = 2 powi e * 2 ^ j" by (simp add: p)
  have "x / 2 powi e = real_of_int n * (1 / 2 ^ k) / 2 powi e" by (simp add: x_def)
  also have "\<dots> = real_of_int (n * 2 ^ j)" by (simp add: pk)
  finally have "roundHalfEven (x / 2 powi e) = n * 2 ^ j" by (simp only: roundHalfEven_of_int)
  then have "toDouble x = real_of_int (n * 2 ^ j) * 2 powi e"
    using x0 by (simp add: toDouble_def Let_def e_def)
  also have "\<dots> = real_of_int n * (2 powi e * 2 ^ j)" by simp
  also have "\<dots> = x" by (simp only: pk [symmetric]) (simp add: x_def)
  finally show ?thesis by (simp add: x_def)
qed

lemma toDouble_of_int: "\<bar>n\<bar> < 2 ^ 53 \<Longrightarrow> toDouble (real_of_int n) = real_of_int n"
  using toDouble_dyadic [of n 0] by simp

lemma toDouble_exact:
  assumes "x = real_of_int n / 2 ^ k" and "\<bar>n\<bar> < 2 ^ 53" and "k \<le> 1074"
  shows "toDouble x = x"
  using toDouble_dyadic [OF assms(2,3)] assms(1) by simp

text \<open>The same when the scaled number lies half-way between two integers.\<close>

lemma roundHalfEven_tie:
  "roundHalfEven (real_of_int m + 1 / 2) = (if even m then m else m + 1)"
proof -
  have "\<lfloor>real_of_int m + 1 / 2\<rfloor> = m" by (intro floor_unique) auto
  then show ?thesis by (simp add: roundHalfEven_def Let_def)
qed

lemma toDouble_eval_tie:
  assumes "0 < x" and "2 ^ 52 \<le> x * 2 ^ k" and "x * 2 ^ k < 2 ^ 53" and "k \<le> 1074"
    and "x * 2 ^ k = real_of_int m + 1 / 2"
  shows "toDouble x = real_of_int (if even m then m else m + 1) / 2 ^ k"
proof -
  have p: "(2::real) powi (- int k) = 1 / 2 ^ k"
    by (simp add: power_int_minus_divide)
  have "(2::real) powi (52 - int k) = 2 ^ 52 * 2 powi (- int k)"
    using power_int_add [of "2::real" 52 "- int k"] by simp
  then have "(2::real) powi (52 - int k) = 2 ^ 52 / 2 ^ k" by (simp add: p)
  moreover have "(2::real) ^ 52 / 2 ^ k \<le> x" using assms(2) by (simp add: pos_divide_le_eq)
  ultimately have lo: "2 powi (52 - int k) \<le> x" by simp
  have "(2::real) powi (52 - int k + 1) = 2 ^ 53 * 2 powi (- int k)"
    using power_int_add [of "2::real" 53 "- int k"] by (simp add: algebra_simps)
  then have "(2::real) powi (52 - int k + 1) = 2 ^ 53 / 2 ^ k" by (simp add: p)
  moreover have "x < (2::real) ^ 53 / 2 ^ k" using assms(3) by (simp add: pos_less_divide_eq)
  ultimately have hi: "x < 2 powi (52 - int k + 1)" by simp
  have "floorLog2 x = 52 - int k" by (rule floorLog2_unique [OF assms(1) lo hi])
  then have e: "max (floorLog2 x - 52) (- 1074) = - int k" using assms(4) by simp
  have td: "toDouble x = real_of_int (roundHalfEven (x / 2 powi (- int k))) * 2 powi (- int k)"
    using assms(1) by (simp add: toDouble_def e Let_def)
  have "x / 2 powi (- int k) = real_of_int m + 1 / 2" using assms(5) by (simp add: p)
  then have "roundHalfEven (x / 2 powi (- int k)) = (if even m then m else m + 1)"
    by (simp only: roundHalfEven_tie)
  then show ?thesis by (simp add: td p)
qed

text \<open>A double is rounded to itself.\<close>

lemma toDouble_scaled_lt:
  assumes "\<bar>n\<bar> < 2 ^ 53" and "- 1074 \<le> e"
  shows "toDouble (real_of_int n * 2 powi e) = real_of_int n * 2 powi e"
proof (cases "n = 0")
  case True
  then show ?thesis by (simp add: toDouble_def)
next
  case False
  define x where "x = real_of_int n * 2 powi e"
  have x0: "x \<noteq> 0" using False by (simp add: x_def)
  have pos: "0 < \<bar>x\<bar>" using x0 by simp
  define e' where "e' = max (floorLog2 \<bar>x\<bar> - 52) (- 1074)"
  note b = floorLog2_bounds [OF pos]
  have n53: "real_of_int \<bar>n\<bar> < 2 ^ 53" using assms(1) by simp
  have "\<bar>x\<bar> = real_of_int \<bar>n\<bar> * 2 powi e" by (simp add: x_def abs_mult)
  also have "\<dots> < 2 ^ 53 * 2 powi e"
    using n53 by (intro mult_strict_right_mono) auto
  also have "\<dots> = 2 powi (53 + e)"
    using power_int_add [of "2::real" 53 e] by simp
  finally have "\<bar>x\<bar> < 2 powi (53 + e)" .
  then have "(2::real) powi floorLog2 \<bar>x\<bar> < 2 powi (53 + e)" using b(1) by linarith
  then have "floorLog2 \<bar>x\<bar> < 53 + e" by (metis not_less power_int_increasing one_le_numeral)
  then have ek: "e' \<le> e" using assms(2) by (simp add: e'_def)
  define j where "j = nat (e - e')"
  have "(2::real) powi e = 2 powi e' * 2 powi (e - e')"
    using power_int_add [of "2::real" e' "e - e'"] by simp
  also have "(2::real) powi (e - e') = 2 ^ j" using ek by (simp add: j_def power_int_def)
  finally have pk: "(2::real) powi e = 2 powi e' * 2 ^ j" .
  have "x / 2 powi e' = real_of_int n * (2 powi e' * 2 ^ j) / 2 powi e'"
    by (simp only: x_def pk)
  also have "\<dots> = real_of_int (n * 2 ^ j)" by simp
  finally have "roundHalfEven (x / 2 powi e') = n * 2 ^ j" by (simp only: roundHalfEven_of_int)
  then have "toDouble x = real_of_int (n * 2 ^ j) * 2 powi e'"
    using x0 by (simp add: toDouble_def Let_def e'_def)
  also have "\<dots> = real_of_int n * (2 powi e' * 2 ^ j)" by simp
  also have "\<dots> = x" by (simp only: pk [symmetric] x_def)
  finally show ?thesis by (simp add: x_def)
qed

lemma toDouble_scaled:
  assumes "\<bar>n\<bar> \<le> 2 ^ 53" and "- 1074 \<le> e"
  shows "toDouble (real_of_int n * 2 powi e) = real_of_int n * 2 powi e"
proof (cases "\<bar>n\<bar> < 2 ^ 53")
  case True
  then show ?thesis using assms(2) by (rule toDouble_scaled_lt)
next
  case False
  with assms(1) have "\<bar>n\<bar> = 9007199254740992" by simp
  then have "n = 2 * (n div 2)" "\<bar>n div 2\<bar> < 9007199254740992" by presburger+
  then obtain h where h: "n = 2 * h" "\<bar>h\<bar> < 2 ^ 53" by simp
  have "(2::real) powi (e + 1) = 2 powi e * 2" using power_int_add [of "2::real" e 1] by simp
  then have "real_of_int n * 2 powi e = real_of_int h * 2 powi (e + 1)" by (simp add: h(1))
  moreover have "toDouble (real_of_int h * 2 powi (e + 1)) = real_of_int h * 2 powi (e + 1)"
    using h(2) assms(2) by (intro toDouble_scaled_lt) auto
  ultimately show ?thesis by simp
qed

lemma toDouble_idem: "toDouble (toDouble x) = toDouble x"
proof (cases "x = 0")
  case True
  then show ?thesis by (simp add: toDouble_def)
next
  case False
  then have pos: "0 < \<bar>x\<bar>" by simp
  define fl where "fl = floorLog2 \<bar>x\<bar>"
  define e where "e = max (fl - 52) (- 1074)"
  define r where "r = roundHalfEven (x / 2 powi e)"
  note b = floorLog2_bounds [OF pos, folded fl_def]
  have td: "toDouble x = real_of_int r * 2 powi e"
    using False by (simp add: toDouble_def Let_def r_def e_def fl_def)
  have "(2::real) powi (fl - 52 + 53) = 2 powi (fl - 52) * 2 powi 53"
    by (rule power_int_add) simp
  moreover have "fl - 52 + 53 = fl + 1" by simp
  ultimately have "(2::real) powi (fl + 1) = 2 powi (fl - 52) * 2 ^ 53" by simp
  moreover have "(2::real) powi (fl - 52) \<le> 2 powi e"
    by (intro power_int_increasing) (auto simp: e_def)
  ultimately have "(2::real) powi (fl + 1) \<le> 2 powi e * 2 ^ 53" by (simp add: mult_right_mono)
  with b(2) have "\<bar>x\<bar> < 2 powi e * 2 ^ 53" by linarith
  then have "\<bar>x\<bar> / 2 powi e < 2 ^ 53" by (simp add: pos_divide_less_eq mult.commute)
  then have y: "\<bar>x / 2 powi e\<bar> < 2 ^ 53" by simp
  have "\<bar>real_of_int r - x / 2 powi e\<bar> \<le> 1 / 2" unfolding r_def by (rule roundHalfEven_error)
  with y have "\<bar>real_of_int r\<bar> < 2 ^ 53 + 1" by linarith
  then have "real_of_int \<bar>r\<bar> < real_of_int (2 ^ 53 + 1)" by simp
  then have "\<bar>r\<bar> < 2 ^ 53 + 1" by (simp only: of_int_less_iff)
  then have r: "\<bar>r\<bar> \<le> 2 ^ 53" by simp
  have "- 1074 \<le> e" by (simp add: e_def)
  with r show ?thesis unfolding td by (rule toDouble_scaled)
qed

lemma toDouble_1: "toDouble 1 = 1"
  using toDouble_of_int [of 1] by simp

text \<open>The same for a quotient, a product, a sum and a difference of two doubles.\<close>

lemma fdiv_eval:
  assumes "0 < a / b" and "2 ^ 52 \<le> a / b * 2 ^ k" and "a / b * 2 ^ k < 2 ^ 53" and "k \<le> 1074"
    and "\<bar>a / b * 2 ^ k - real_of_int m\<bar> < 1 / 2"
  shows "fdiv a b = real_of_int m / 2 ^ k"
  unfolding fdiv_def using assms by (rule toDouble_eval)

lemma fmul_eval:
  assumes "0 < a * b" and "2 ^ 52 \<le> a * b * 2 ^ k" and "a * b * 2 ^ k < 2 ^ 53" and "k \<le> 1074"
    and "\<bar>a * b * 2 ^ k - real_of_int m\<bar> < 1 / 2"
  shows "fmul a b = real_of_int m / 2 ^ k"
  unfolding fmul_def using assms by (rule toDouble_eval)

lemma fadd_eval:
  assumes "0 < a + b" and "2 ^ 52 \<le> (a + b) * 2 ^ k" and "(a + b) * 2 ^ k < 2 ^ 53" and "k \<le> 1074"
    and "\<bar>(a + b) * 2 ^ k - real_of_int m\<bar> < 1 / 2"
  shows "fadd a b = real_of_int m / 2 ^ k"
  unfolding fadd_def using assms by (rule toDouble_eval)

lemma fadd_eval_tie:
  assumes "0 < a + b" and "2 ^ 52 \<le> (a + b) * 2 ^ k" and "(a + b) * 2 ^ k < 2 ^ 53" and "k \<le> 1074"
    and "(a + b) * 2 ^ k = real_of_int m + 1 / 2"
  shows "fadd a b = real_of_int (if even m then m else m + 1) / 2 ^ k"
  unfolding fadd_def using assms by (rule toDouble_eval_tie)

text \<open>Adding a product to 0 gives the product.\<close>

lemma fadd_0_fmul: "fadd 0 (fmul a b) = fmul a b"
  by (simp add: fadd_def fmul_def toDouble_idem)

lemma double_0_05: "toDouble (5 / 100) = 7205759403792794 / 2 ^ 57"
  using toDouble_eval [of "5 / 100" 57 7205759403792794] by simp

section \<open>Properties of the progress translator\<close>

lemma mathRound_bounds:
  "real_of_int (mathRound x) \<le> x + 1 / 2 \<and> x - 1 / 2 < real_of_int (mathRound x)"
  unfolding mathRound_def by linarith

text \<open>
  One translation, from a page \<open>p\<close> of \<open>L\<close> to the scale \<open>R\<close>. With
  \<open>6 L R\<close> below \<open>2\<close> to the 53 the two roundings of the doubles move the product
  \<open>p R / L\<close> by less than \<open>1 / (2 L)\<close>, which is the least distance between it and
  a rounding boundary that it does not lie on: the result \<open>q\<close> is a nearest integer
  of the exact product.
\<close>

lemma scale_round:
  fixes p L R :: int
  assumes p0: "0 \<le> p" and pL: "p \<le> L" and L: "1 \<le> L" and R: "1 \<le> R"
    and sz: "6 * L * R < 2 ^ 53"
  defines "q \<equiv> mathRound (fmul (fdiv (real_of_int p) (real_of_int L)) (real_of_int R))"
  shows "2 * L * q \<le> 2 * p * R + L \<and> 2 * p * R - L \<le> 2 * L * q \<and> 0 \<le> q \<and> q \<le> R"
proof (cases "p = 0")
  case True
  then have "q = 0" by (simp add: q_def fdiv_def fmul_def toDouble_def mathRound_def)
  then show ?thesis using True L R by simp
next
  case False
  with p0 have p1: "1 \<le> p" by simp
  define Lr where "Lr = real_of_int L"
  define Rr where "Rr = real_of_int R"
  define pr where "pr = real_of_int p"
  define u :: real where "u = 1 / 2 ^ 53"
  define x where "x = pr / Lr"
  define a where "a = toDouble x"
  define y where "y = toDouble (a * Rr)"
  define t where "t = x * Rr"
  have qy: "q = mathRound y"
    by (simp add: q_def y_def a_def x_def fdiv_def fmul_def pr_def Lr_def Rr_def)
  have Lp: "1 \<le> Lr" and Rp: "1 \<le> Rr" and pp: "1 \<le> pr" and prL: "pr \<le> Lr"
    using L R p1 pL by (simp_all add: Lr_def Rr_def pr_def)
  have u0: "0 < u" "u \<le> 1 / 2" by (simp_all add: u_def)
  have "L * 1 \<le> L * R" using L R by (intro mult_left_mono) auto
  with sz have "6 * L < 2 ^ 53" by simp
  then have "real_of_int (6 * L) < real_of_int (2 ^ 53)" by (simp only: of_int_less_iff)
  then have Lbig: "Lr < 2 ^ 51" by (simp add: Lr_def)
  have "real_of_int (6 * L * R) < real_of_int (2 ^ 53)" using sz by (simp only: of_int_less_iff)
  then have "6 * Lr * Rr < 2 ^ 53" by (simp add: Lr_def Rr_def)
  then have six: "6 * Lr * Rr * u < 1" by (simp add: u_def)
  have x0: "0 < x" and x1: "x \<le> 1" using Lp pp prL by (simp_all add: x_def)
  have "1 / Lr \<le> pr / Lr" using pp Lp by (simp add: divide_right_mono)
  moreover have "1 / 2 ^ 51 \<le> 1 / Lr" using Lbig Lp by (simp add: frac_le)
  ultimately have "1 / 2 ^ 51 \<le> x" unfolding x_def by linarith
  define c :: real where "c = 1 / 2 ^ 51"
  have xlow: "c \<le> x" using \<open>1 / 2 ^ 51 \<le> x\<close> by (simp add: c_def)
  have small: "1 / 2 ^ 1022 \<le> c / 2" by (simp add: c_def)
  have "1 / 2 ^ 1022 \<le> \<bar>x\<bar>" using xlow x0 small by linarith
  then have "\<bar>a - x\<bar> \<le> \<bar>x\<bar> / 2 ^ 53" unfolding a_def by (intro toDouble_rel_error) simp
  then have ea: "\<bar>a - x\<bar> \<le> x * u" using x0 by (simp add: u_def)
  have xu: "x * u \<le> x * (1 / 2)" using u0 x0 by (intro mult_left_mono) auto
  have alo: "x / 2 \<le> a" and ahi: "a \<le> x + x * u" using ea xu by (simp_all add: abs_le_iff)
  have a0: "0 < a" using alo x0 by linarith
  have "a * 1 \<le> a * Rr" using a0 Rp by (intro mult_left_mono) auto
  then have aRlow: "c / 2 \<le> a * Rr" using alo xlow by linarith
  have aR0: "0 < a * Rr" using a0 Rp by simp
  have "1 / 2 ^ 1022 \<le> \<bar>a * Rr\<bar>" using aRlow aR0 small by linarith
  then have "\<bar>y - a * Rr\<bar> \<le> \<bar>a * Rr\<bar> / 2 ^ 53" unfolding y_def by (intro toDouble_rel_error) simp
  then have ey: "\<bar>y - a * Rr\<bar> \<le> a * Rr * u" using aR0 by (simp add: u_def)
  have "a * Rr * u \<le> a * Rr * 1" using aR0 u0 by (intro mult_left_mono) auto
  with ey have y0: "0 \<le> y" by (simp add: abs_le_iff)
  have e2: "\<bar>a * Rr - t\<bar> \<le> x * u * Rr"
  proof -
    have "\<bar>a * Rr - t\<bar> = \<bar>a - x\<bar> * Rr" using Rp by (simp add: t_def abs_mult left_diff_distrib [symmetric])
    also have "\<dots> \<le> x * u * Rr" using ea Rp by (intro mult_right_mono) auto
    finally show ?thesis .
  qed
  have e3: "a * Rr * u \<le> (x + x * u) * Rr * u"
    using ahi Rp u0 by (intro mult_right_mono) auto
  have "(x + x * u) * Rr * u + x * u * Rr = x * (Rr * u * (2 + u))" by (simp add: algebra_simps)
  also have "\<dots> \<le> 1 * (Rr * u * (2 + u))" using x1 Rp u0 by (intro mult_right_mono) auto
  also have "\<dots> \<le> Rr * u * 3"
    using Rp u0 by (simp add: mult_left_mono)
  finally have e4: "(x + x * u) * Rr * u + x * u * Rr \<le> 3 * Rr * u" by simp
  have "\<bar>y - t\<bar> \<le> \<bar>y - a * Rr\<bar> + \<bar>a * Rr - t\<bar>" by simp
  with ey e2 e3 e4 have err: "\<bar>y - t\<bar> \<le> 3 * Rr * u" by linarith
  have "2 * Lr * \<bar>y - t\<bar> \<le> 2 * Lr * (3 * Rr * u)" using err Lp by (intro mult_left_mono) auto
  with six have tight: "2 * Lr * \<bar>y - t\<bar> < 1" by (simp add: algebra_simps)
  have tL: "2 * Lr * t = 2 * pr * Rr" using Lp by (simp add: t_def x_def)
  have d1: "2 * Lr * y - 2 * Lr * t \<le> 2 * Lr * \<bar>y - t\<bar>"
  proof -
    have "2 * Lr * (y - t) \<le> 2 * Lr * \<bar>y - t\<bar>" using Lp by (intro mult_left_mono) auto
    then show ?thesis by (simp add: algebra_simps)
  qed
  have d2: "2 * Lr * t - 2 * Lr * y \<le> 2 * Lr * \<bar>y - t\<bar>"
  proof -
    have "2 * Lr * (t - y) \<le> 2 * Lr * \<bar>y - t\<bar>" using Lp by (intro mult_left_mono) auto
    then show ?thesis by (simp add: algebra_simps)
  qed
  define qr where "qr = real_of_int q"
  have q1: "qr \<le> y + 1 / 2" and q2: "y - 1 / 2 < qr"
    using mathRound_bounds [of y] by (simp_all add: qy qr_def)
  have m1: "2 * Lr * qr \<le> 2 * Lr * y + Lr"
  proof -
    have "2 * Lr * qr \<le> 2 * Lr * (y + 1 / 2)" using q1 Lp by (intro mult_left_mono) auto
    then show ?thesis by (simp add: algebra_simps)
  qed
  have m2: "2 * Lr * y - Lr < 2 * Lr * qr"
  proof -
    have "2 * Lr * (y - 1 / 2) < 2 * Lr * qr" using q2 Lp by (intro mult_strict_left_mono) auto
    then show ?thesis by (simp add: algebra_simps)
  qed
  have "2 * Lr * qr < 2 * pr * Rr + Lr + 1" using m1 d1 tight tL by linarith
  then have "real_of_int (2 * L * q) < real_of_int (2 * p * R + L + 1)"
    by (simp add: Lr_def qr_def pr_def Rr_def)
  then have c1: "2 * L * q < 2 * p * R + L + 1" by (simp only: of_int_less_iff)
  have "2 * pr * Rr - Lr - 1 < 2 * Lr * qr" using m2 d2 tight tL by linarith
  then have "real_of_int (2 * p * R - L - 1) < real_of_int (2 * L * q)"
    by (simp add: Lr_def qr_def pr_def Rr_def)
  then have c2: "2 * p * R - L - 1 < 2 * L * q" by (simp only: of_int_less_iff)
  have c3: "0 \<le> q" using y0 by (simp add: qy mathRound_def)
  have c4: "q \<le> R"
  proof (rule ccontr)
    assume "\<not> q \<le> R"
    then have "R + 1 \<le> q" by simp
    then have "2 * L * (R + 1) \<le> 2 * L * q" using L by (intro mult_left_mono) auto
    moreover have "p * R \<le> L * R" using pL R by (intro mult_right_mono) auto
    ultimately show False using c1 L by (simp add: algebra_simps)
  qed
  from c1 c2 c3 c4 show ?thesis by simp
qed

text \<open>The model at three inputs: the two divisions, multiplications and roundings of each.\<close>

lemma round_trip_33:
  "pageToSend False \<lparr> current = 33 - 1, total = 100 \<rparr> (Some 10) = 3
   \<and> fst (mapRemotePage False 3 (Some 10) 100) = 30"
proof -
  have a: "fdiv 33 100 = 5944751508129055 / 2 ^ 54"
    using fdiv_eval [of 33 100 54 5944751508129055] by simp
  have y: "fmul (5944751508129055 / 2 ^ 54) 10 = 7430939385161319 / 2 ^ 51"
    using fmul_eval [of "5944751508129055 / 2 ^ 54" 10 51 7430939385161319] by simp
  have b: "fdiv 3 10 = 5404319552844595 / 2 ^ 54"
    using fdiv_eval [of 3 10 54 5404319552844595] by simp
  have z: "fmul (5404319552844595 / 2 ^ 54) 100 = 8444249301319680 / 2 ^ 48"
    using fmul_eval [of "5404319552844595 / 2 ^ 54" 100 48 8444249301319680] by simp
  have 1: "pageToSend False \<lparr> current = 33 - 1, total = 100 \<rparr> (Some 10)
            = mathRound (fmul (fdiv 33 100) 10)"
    by (simp add: pageToSend_def Let_def)
  have 2: "fst (mapRemotePage False 3 (Some 10) 100) = mathRound (fmul (fdiv 3 10) 100)"
    by (simp add: mapRemotePage_def Let_def)
  show ?thesis
    unfolding 1 2 a y b z by (simp add: mathRound_def)
qed

lemma round_trip_big:
  "pageToSend False \<lparr> current = 22499970741 - 1, total = 30000000892 \<rparr> (Some 10000000298)
      = 7499990248
   \<and> fst (mapRemotePage False 7499990248 (Some 10000000298) 30000000892) = 22499970743"
proof -
  have a: "fdiv 22499970741 30000000892 = 6755390455474035 / 2 ^ 53"
    using fdiv_eval [of 22499970741 30000000892 53 6755390455474035] by simp
  have y: "fmul (6755390455474035 / 2 ^ 53) 10000000298 = 7864309773762560 / 2 ^ 20"
    using fmul_eval [of "6755390455474035 / 2 ^ 53" 10000000298 20 7864309773762560] by simp
  have b: "fdiv 7499990248 10000000298 = 6755390455924395 / 2 ^ 53"
    using fdiv_eval [of 7499990248 10000000298 53 6755390455924395] by simp
  have z: "fmul (6755390455924395 / 2 ^ 53) 30000000892 = 5898232330321920 / 2 ^ 18"
    using fmul_eval [of "6755390455924395 / 2 ^ 53" 30000000892 18 5898232330321920] by simp
  have 1: "pageToSend False \<lparr> current = 22499970741 - 1, total = 30000000892 \<rparr> (Some 10000000298)
            = mathRound (fmul (fdiv 22499970741 30000000892) 10000000298)"
    by (simp add: pageToSend_def Let_def)
  have 2: "fst (mapRemotePage False 7499990248 (Some 10000000298) 30000000892)
            = mathRound (fmul (fdiv 7499990248 10000000298) 30000000892)"
    by (simp add: mapRemotePage_def Let_def)
  show ?thesis
    unfolding 1 2 a y b z by (simp add: mathRound_def)
qed

lemma round_trip_200:
  "pageToSend False \<lparr> current = 200 - 1, total = 300 \<rparr> (Some 100) = 67
   \<and> fst (mapRemotePage False 67 (Some 100) 300) = 201"
proof -
  have a: "fdiv 200 300 = 6004799503160661 / 2 ^ 53"
    using fdiv_eval [of 200 300 53 6004799503160661] by simp
  have y: "fmul (6004799503160661 / 2 ^ 53) 100 = 4691249611844266 / 2 ^ 46"
    using fmul_eval [of "6004799503160661 / 2 ^ 53" 100 46 4691249611844266] by simp
  have b: "fdiv 67 100 = 6034823500676465 / 2 ^ 53"
    using fdiv_eval [of 67 100 53 6034823500676465] by simp
  have z: "fmul (6034823500676465 / 2 ^ 53) 300 = 7072058789855232 / 2 ^ 45"
    using fmul_eval [of "6034823500676465 / 2 ^ 53" 300 45 7072058789855232] by simp
  have 1: "pageToSend False \<lparr> current = 200 - 1, total = 300 \<rparr> (Some 100)
            = mathRound (fmul (fdiv 200 300) 100)"
    by (simp add: pageToSend_def Let_def)
  have 2: "fst (mapRemotePage False 67 (Some 100) 300) = mathRound (fmul (fdiv 67 100) 300)"
    by (simp add: mapRemotePage_def Let_def)
  show ?thesis
    unfolding 1 2 a y b z by (simp add: mathRound_def)
qed

lemma page_7_of_10_to_45: "pageToSend False \<lparr> current = 7 - 1, total = 10 \<rparr> (Some 45) = 31"
proof -
  have a: "fdiv 7 10 = 6305039478318694 / 2 ^ 53"
    using fdiv_eval [of 7 10 53 6305039478318694] by simp
  have y: "fmul (6305039478318694 / 2 ^ 53) 45 = 8866461766385663 / 2 ^ 48"
    using fmul_eval [of "6305039478318694 / 2 ^ 53" 45 48 8866461766385663] by simp
  have 1: "pageToSend False \<lparr> current = 7 - 1, total = 10 \<rparr> (Some 45)
            = mathRound (fmul (fdiv 7 10) 45)"
    by (simp add: pageToSend_def Let_def)
  show ?thesis unfolding 1 a y by (simp add: mathRound_def)
qed

text \<open>
  C5, as stated, fails. With 100 local pages and a remote edition of 10 pages, local
  page 33 is sent as remote page 3, and remote page 3 comes back as local page 30.
  With page counts of tens of thousands of millions the rounding of the doubles alone
  moves a page by 2: page 22499970741 of 30000000892 is sent as page 7499990248 of
  10000000298 and comes back as page 22499970743.
\<close>

theorem page_round_trip_fails:
  "(1::int) \<le> 33 \<and> (33::int) \<le> 100 \<and> (1::int) \<le> 10
   \<and> pageToSend False \<lparr> current = 33 - 1, total = 100 \<rparr> (Some 10) = 3
   \<and> fst (mapRemotePage False 3 (Some 10) 100) = 30
   \<and> \<not> \<bar>fst (mapRemotePage False
                (pageToSend False \<lparr> current = 33 - 1, total = 100 \<rparr> (Some 10)) (Some 10) 100)
          - 33\<bar> \<le> 1
   \<and> (1::int) \<le> 22499970741 \<and> (22499970741::int) \<le> 30000000892
   \<and> (1::int) \<le> 10000000298 \<and> (30000000892::int) \<le> 3 * 10000000298
   \<and> pageToSend False \<lparr> current = 22499970741 - 1, total = 30000000892 \<rparr> (Some 10000000298)
        = 7499990248
   \<and> fst (mapRemotePage False 7499990248 (Some 10000000298) 30000000892) = 22499970743
   \<and> \<not> \<bar>fst (mapRemotePage False
                (pageToSend False \<lparr> current = 22499970741 - 1, total = 30000000892 \<rparr>
                   (Some 10000000298)) (Some 10000000298) 30000000892)
          - 22499970741\<bar> \<le> 1"
  using round_trip_33 round_trip_big by simp

text \<open>
  C5, amended. For a reflowable book and a local page \<open>p\<close> between 1 and the local
  total \<open>L\<close>, with a remote total \<open>R\<close> of at least 1, \<open>L\<close> at most three times
  \<open>R\<close>, and \<open>6 L R\<close> below \<open>2\<close> to the 53, translating \<open>p\<close> to the remote
  scale and the result back gives a page within 1 of \<open>p\<close>.
\<close>

theorem page_round_trip:
  fixes p L R :: int
  assumes p: "1 \<le> p" "p \<le> L" and R: "1 \<le> R" and LR: "L \<le> 3 * R"
    and sz: "6 * L * R < 2 ^ 53"
  shows "\<bar>fst (mapRemotePage False
               (pageToSend False \<lparr> current = p - 1, total = L \<rparr> (Some R)) (Some R) L) - p\<bar> \<le> 1"
proof (cases "R = L")
  case True
  then show ?thesis by (simp add: pageToSend_def mapRemotePage_def Let_def)
next
  case False
  define q where "q = mathRound (fmul (fdiv (real_of_int p) (real_of_int L)) (real_of_int R))"
  define b where "b = mathRound (fmul (fdiv (real_of_int q) (real_of_int R)) (real_of_int L))"
  have L: "1 \<le> L" using p by simp
  have qv: "pageToSend False \<lparr> current = p - 1, total = L \<rparr> (Some R) = q"
    using False R by (simp add: pageToSend_def Let_def q_def)
  have bv: "fst (mapRemotePage False q (Some R) L) = b"
    using False R by (simp add: mapRemotePage_def Let_def b_def)
  have A: "2 * L * q \<le> 2 * p * R + L" "2 * p * R - L \<le> 2 * L * q" "0 \<le> q" "q \<le> R"
    using scale_round [of p L R] p L R sz by (simp_all add: q_def)
  have sz': "6 * R * L < 2 ^ 53" using sz by (simp add: mult.commute mult.left_commute)
  have B: "2 * R * b \<le> 2 * q * L + R" "2 * q * L - R \<le> 2 * R * b"
    using scale_round [of q R L] A(3,4) L R sz' by (simp_all add: b_def)
  define M where "M = q * L"
  define N where "N = p * R"
  define K where "K = R * b"
  have A': "2 * M \<le> 2 * N + L" "2 * N - L \<le> 2 * M"
    using A(1,2) by (simp_all add: M_def N_def mult.commute mult.left_commute)
  have B': "2 * K \<le> 2 * M + R" "2 * M - R \<le> 2 * K"
    using B by (simp_all add: M_def K_def mult.commute mult.left_commute)
  have up: "b \<le> p + 1"
  proof (rule ccontr)
    assume "\<not> b \<le> p + 1"
    then have "p + 2 \<le> b" by simp
    then have "R * (p + 2) \<le> R * b" using R by (intro mult_left_mono) auto
    then have k: "N + 2 * R \<le> K" by (simp add: N_def K_def algebra_simps)
    with A' B' LR have e: "L = 3 * R" "2 * M = 2 * N + 3 * R" by linarith+
    have "2 * M = 6 * q * R" by (simp add: M_def e(1))
    with e(2) have "(6 * q - 2 * p - 3) * R = 0" by (simp add: N_def algebra_simps)
    with R have "6 * q - 2 * p - 3 = 0" by simp
    then show False by presburger
  qed
  have lo: "p - 1 \<le> b"
  proof (rule ccontr)
    assume "\<not> p - 1 \<le> b"
    then have "b \<le> p - 2" by simp
    then have "R * b \<le> R * (p - 2)" using R by (intro mult_left_mono) auto
    then have k: "K \<le> N - 2 * R" by (simp add: N_def K_def algebra_simps)
    with A' B' LR have e: "L = 3 * R" "2 * M = 2 * N - 3 * R" by linarith+
    have "2 * M = 6 * q * R" by (simp add: M_def e(1))
    with e(2) have "(6 * q - 2 * p + 3) * R = 0" by (simp add: N_def algebra_simps)
    with R have "6 * q - 2 * p + 3 = 0" by simp
    then show False by presburger
  qed
  from up lo show ?thesis by (simp add: qv bv)
qed

theorem page_round_trip_witness:
  "(1::int) \<le> 200 \<and> (200::int) \<le> 300 \<and> (1::int) \<le> 100 \<and> (300::int) \<le> 3 * 100
   \<and> (6::int) * 300 * 100 < 2 ^ 53
   \<and> pageToSend False \<lparr> current = 200 - 1, total = 300 \<rparr> (Some 100) = 67
   \<and> fst (mapRemotePage False 67 (Some 100) 300) = 201
   \<and> \<bar>fst (mapRemotePage False
              (pageToSend False \<lparr> current = 200 - 1, total = 300 \<rparr> (Some 100)) (Some 100) 300)
        - 200\<bar> \<le> 1"
  using page_round_trip [of 200 300 100] round_trip_200 by simp

section \<open>Properties of the conflict resolver\<close>

text \<open>
  With a linkage and a remote record whose page is present and not 0, one run of
  \<open>pullProgress\<close> is decided by the strategy, the two timestamps and the difference
  of the two fractions.
\<close>

lemma pullProgress_with_remote:
  assumes "truthyStr linkId" "progress ub = Some pr" "hp_page pr = Some raw" "raw \<noteq> 0"
  shows "pullProgress strategy linkId (Some ub) localTimestamp isFixedLayout pageInfo =
     (if strategy = Send then NotPulled
      else if strategy = Receive \<or> (strategy = Silent \<and> updated_at pr > localTimestamp)
      then AppliedRemote (fst (mapRemotePage isFixedLayout raw (remoteTotalPages ub)
                                   (pullLocalTotalPages pageInfo)))
      else if strategy = Prompt
              \<and> percentageDiff isFixedLayout raw (remoteTotalPages ub) pageInfo > toDouble (5 / 100)
      then ConflictRaised
             \<lparr> cd_localPercentage = pullLocalPercentage pageInfo,
               cd_localPage = pullLocalPage pageInfo,
               cd_remotePercentage = snd (mapRemotePage isFixedLayout raw (remoteTotalPages ub)
                                            (pullLocalTotalPages pageInfo)),
               cd_remotePage = fst (mapRemotePage isFixedLayout raw (remoteTotalPages ub)
                                      (pullLocalTotalPages pageInfo)),
               cd_remoteUpdatedAt = updated_at pr,
               cd_isFixedLayout = isFixedLayout,
               cd_localTotalPages = pullLocalTotalPages pageInfo,
               cd_remotePageRaw = raw \<rparr>
      else NoSyncNeeded)"
  using assms by (simp add: pullProgress_def truthy_def percentageDiff_def Let_def)



text \<open>
  A remote record whose page is absent or 0 counts as no remote progress, under every
  strategy that pulls.
\<close>

lemma pullProgress_page_zero:
  assumes "strategy \<noteq> Send" "truthyStr linkId" "progress ub = Some pr" "hp_page pr = Some 0"
  shows "pullProgress strategy linkId (Some ub) localTimestamp isFixedLayout pageInfo
           = NoRemoteProgress"
  using assms by (simp add: pullProgress_def truthy_def)





text \<open>
  The difference is the difference of two doubles: local page 75 of 100 against remote
  page 80 of 100 gives 0.8 - 0.75 = 0.050000000000000044, which is greater than the
  double 0.05, and a conflict is raised.
\<close>

lemma five_points_apart_is_a_conflict:
  "raisesConflict (pullProgress Prompt (Some ''42'')
     (Some \<lparr> progress = Some \<lparr> hp_page = Some 80, updated_at = 2000 \<rparr>,
             remoteTotalPages = Some 100 \<rparr>)
     1000 False (Some \<lparr> current = 74, total = 100 \<rparr>))"
proof -
  have e: "toDouble (3 / 4) = 3 / 4" by (rule toDouble_exact [of _ 3 2]) simp_all
  have l: "pullLocalPercentage (Some \<lparr> current = 74, total = 100 \<rparr>) = 3 / 4"
    by (simp add: pullLocalPercentage_def pullLocalPage_def pullLocalTotalPages_def fdiv_def e)
  have r0: "fdiv 80 100 = 7205759403792794 / 2 ^ 53"
    using fdiv_eval [of 80 100 53 7205759403792794] by simp
  have "mapRemotePage False 80 (Some 100) (pullLocalTotalPages (Some \<lparr> current = 74, total = 100 \<rparr>))
          = (80, fdiv 80 100)"
    by (simp add: mapRemotePage_def pullLocalTotalPages_def)
  then have r: "mapRemotePage False 80 (Some 100)
                  (pullLocalTotalPages (Some \<lparr> current = 74, total = 100 \<rparr>))
                = (80, 7205759403792794 / 2 ^ 53)"
    by (simp only: r0)
  have s: "fsub (7205759403792794 / 2 ^ 53) (3 / 4) = 450359962737050 / 2 ^ 53"
  proof -
    have "toDouble (7205759403792794 / 2 ^ 53 - 3 / 4) = 7205759403792794 / 2 ^ 53 - 3 / 4"
      by (rule toDouble_exact [of _ 450359962737050 53]) simp_all
    then show ?thesis by (simp add: fsub_def)
  qed
  have d: "percentageDiff False 80 (Some 100) (Some \<lparr> current = 74, total = 100 \<rparr>)
             = 450359962737050 / 2 ^ 53"
    unfolding percentageDiff_def r l snd_conv s by simp
  have gt: "toDouble (5 / 100) < 450359962737050 / 2 ^ 53"
    unfolding double_0_05 by simp
  have "pullProgress Prompt (Some ''42'')
     (Some \<lparr> progress = Some \<lparr> hp_page = Some 80, updated_at = 2000 \<rparr>,
             remoteTotalPages = Some 100 \<rparr>)
     1000 False (Some \<lparr> current = 74, total = 100 \<rparr>)
     = (if percentageDiff False 80 (Some 100) (Some \<lparr> current = 74, total = 100 \<rparr>)
            > toDouble (5 / 100)
        then ConflictRaised
             \<lparr> cd_localPercentage = pullLocalPercentage (Some \<lparr> current = 74, total = 100 \<rparr>),
               cd_localPage = pullLocalPage (Some \<lparr> current = 74, total = 100 \<rparr>),
               cd_remotePercentage = snd (mapRemotePage False 80 (Some 100)
                                            (pullLocalTotalPages (Some \<lparr> current = 74, total = 100 \<rparr>))),
               cd_remotePage = fst (mapRemotePage False 80 (Some 100)
                                      (pullLocalTotalPages (Some \<lparr> current = 74, total = 100 \<rparr>))),
               cd_remoteUpdatedAt = 2000,
               cd_isFixedLayout = False,
               cd_localTotalPages = pullLocalTotalPages (Some \<lparr> current = 74, total = 100 \<rparr>),
               cd_remotePageRaw = 80 \<rparr>
        else NoSyncNeeded)"
    using pullProgress_with_remote
      [of "Some ''42''"
          "\<lparr> progress = Some \<lparr> hp_page = Some 80, updated_at = 2000 \<rparr>,
             remoteTotalPages = Some 100 \<rparr>"
          "\<lparr> hp_page = Some 80, updated_at = 2000 \<rparr>" 80 Prompt 1000 False
          "Some \<lparr> current = 74, total = 100 \<rparr>"]
    by (simp add: truthyStr_def)
  then show ?thesis using gt by (simp only: d if_True raisesConflict.simps)
qed




section \<open>Properties of the book matcher\<close>

subsection \<open>The distance computed is the Levenshtein distance\<close>

lemma levPrefix_zero [simp]: "levPrefix a b i 0 = i"
  by (cases i) auto

lemma levPrefix_up: "levPrefix a b (Suc i) j \<le> levPrefix a b i j + 1"
  by (cases j) auto

lemma levPrefix_right: "levPrefix a b i (Suc j) \<le> levPrefix a b i j + 1"
  by (cases i) auto

lemma levPrefix_drop_right: "levPrefix a b i j \<le> levPrefix a b i (Suc j) + 1"
proof (induction i arbitrary: j)
  case 0
  then show ?case by simp
next
  case (Suc i)
  have "levPrefix a b (Suc i) j \<le> levPrefix a b i j + 1" by (rule levPrefix_up)
  moreover have "levPrefix a b i j \<le> levPrefix a b i (Suc j) + 1" by (rule Suc.IH)
  ultimately show ?case by (simp add: min_def)
qed

lemma levPrefix_drop_up: "levPrefix a b i j \<le> levPrefix a b (Suc i) j + 1"
proof (induction j arbitrary: i)
  case 0
  then show ?case by simp
next
  case (Suc j)
  have "levPrefix a b i (Suc j) \<le> levPrefix a b i j + 1" by (rule levPrefix_right)
  moreover have "levPrefix a b i j \<le> levPrefix a b (Suc i) j + 1" by (rule Suc.IH)
  ultimately show ?case by (simp add: min_def)
qed

lemma levPrefix_cell:
  "(if a ! i = b ! j then levPrefix a b i j
    else min (levPrefix a b i j + 1)
           (min (levPrefix a b (Suc i) j + 1) (levPrefix a b i (Suc j) + 1)))
   = levPrefix a b (Suc i) (Suc j)"
  using levPrefix_drop_right [of a b i j] levPrefix_drop_up [of a b i j]
  by (auto simp: min_def)

lemma levPrefix_sym: "levPrefix a b i j = levPrefix b a j i"
proof (induction a b i j rule: levPrefix.induct)
  case (3 a b i j)
  then show ?case by (simp add: min.commute min.left_commute eq_commute [of "a ! i"])
qed simp_all

lemma levPrefix_same: "levPrefix s s i i = 0"
  by (induction i) simp_all

lemma fillRow_levPrefix:
  "j \<le> length s1 \<Longrightarrow>
   fillRow (s2 ! i) (drop j s1) (map (levPrefix s2 s1 i) [j ..< Suc (length s1)])
     (levPrefix s2 s1 (Suc i) j)
   = map (levPrefix s2 s1 (Suc i)) [Suc j ..< Suc (length s1)]"
proof (induction "length s1 - j" arbitrary: j)
  case 0
  then have "j = length s1" by simp
  then show ?case by simp
next
  case (Suc k)
  then have lt: "j < length s1" by simp
  have d: "drop j s1 = s1 ! j # drop (Suc j) s1" using lt by (simp add: Cons_nth_drop_Suc)
  have u: "[j ..< Suc (length s1)] = j # Suc j # [Suc (Suc j) ..< Suc (length s1)]"
    using lt by (simp add: upt_conv_Cons)
  have u': "[Suc j ..< Suc (length s1)] = Suc j # [Suc (Suc j) ..< Suc (length s1)]"
    using lt by (simp add: upt_conv_Cons)
  have ih: "fillRow (s2 ! i) (drop (Suc j) s1)
              (map (levPrefix s2 s1 i) [Suc j ..< Suc (length s1)]) (levPrefix s2 s1 (Suc i) (Suc j))
            = map (levPrefix s2 s1 (Suc i)) [Suc (Suc j) ..< Suc (length s1)]"
    using Suc.hyps(1) [of "Suc j"] Suc.hyps(2) lt by simp
  show ?case
    unfolding d u
    using ih levPrefix_cell [of s2 i s1 j]
    by (simp add: Let_def u' del: levPrefix.simps upt_Suc)
qed

lemma fillRows_levPrefix:
  "i \<le> length s2 \<Longrightarrow>
   fillRows s1 (drop i s2) (Suc i) (map (levPrefix s2 s1 i) [0 ..< Suc (length s1)])
   = map (levPrefix s2 s1 (length s2)) [0 ..< Suc (length s1)]"
proof (induction "length s2 - i" arbitrary: i)
  case 0
  then show ?case by simp
next
  case (Suc k)
  then have lt: "i < length s2" by simp
  have d: "drop i s2 = s2 ! i # drop (Suc i) s2" using lt by (simp add: Cons_nth_drop_Suc)
  have row: "Suc i # fillRow (s2 ! i) s1 (map (levPrefix s2 s1 i) [0 ..< Suc (length s1)]) (Suc i)
             = map (levPrefix s2 s1 (Suc i)) [0 ..< Suc (length s1)]"
    using fillRow_levPrefix [of 0 s1 s2 i]
    by (simp add: upt_conv_Cons del: levPrefix.simps upt_Suc)
  have "fillRows s1 (drop (Suc i) s2) (Suc (Suc i))
          (map (levPrefix s2 s1 (Suc i)) [0 ..< Suc (length s1)])
        = map (levPrefix s2 s1 (length s2)) [0 ..< Suc (length s1)]"
    using Suc.hyps(1) [of "Suc i"] Suc.hyps(2) lt by simp
  then show ?case unfolding d by (simp add: row del: levPrefix.simps upt_Suc)
qed

text \<open>The matrix computation returns the Levenshtein distance.\<close>

lemma levenshteinDistance_correct: "levenshteinDistance str1 str2 = levenshtein str1 str2"
proof -
  have row0: "[0 ..< length str1 + 1] = map (levPrefix str2 str1 0) [0 ..< Suc (length str1)]"
    by (simp add: map_idI del: upt_Suc)
  have "fillRows str1 str2 1 [0 ..< length str1 + 1]
        = map (levPrefix str2 str1 (length str2)) [0 ..< Suc (length str1)]"
    using fillRows_levPrefix [of 0 str2 str1] unfolding row0 by simp
  then have "levenshteinDistance str1 str2 = levPrefix str2 str1 (length str2) (length str1)"
    by (simp add: levenshteinDistance_def last_map del: upt_Suc) 
  then show ?thesis by (simp add: levenshtein_def levPrefix_sym [of str1 str2])
qed

lemma levenshtein_sym: "levenshtein a b = levenshtein b a"
  by (simp add: levenshtein_def levPrefix_sym [of a b])

text \<open>
  The similarity computed is the double nearest to the similarity of the specification.
\<close>

lemma stringSimilarity_spec: "stringSimilarity str1 str2 = toDouble (similaritySpec str1 str2)"
proof (cases "str1 = [] \<and> str2 = []")
  case True
  then show ?thesis by (simp add: stringSimilarity_def similaritySpec_def toDouble_1)
next
  case False
  define longer where "longer = (if length str1 > length str2 then str1 else str2)"
  define shorter where "shorter = (if length str1 > length str2 then str2 else str1)"
  have len: "length longer = max (length str1) (length str2)" "length longer \<noteq> 0"
    using False by (auto simp: longer_def)
  have d: "levenshteinDistance longer shorter = levenshtein str1 str2"
    by (simp add: longer_def shorter_def levenshteinDistance_correct levenshtein_sym [of str2 str1])
  have "stringSimilarity str1 str2
          = fdiv (real (length longer) - real (levenshteinDistance longer shorter))
              (real (length longer))"
    using len(2) by (simp add: stringSimilarity_def Let_def longer_def shorter_def)
  also have "\<dots> = toDouble (1 - real (levenshtein str1 str2) / real (length longer))"
    using len(2) by (simp add: fdiv_def d diff_divide_distrib)
  finally show ?thesis using False by (simp add: similaritySpec_def len(1))
qed

lemma sort_key_head:
  assumes "sort_key f xs = y # ys"
  shows "y \<in> set xs \<and> (\<forall>x \<in> set xs. f y \<le> f x)"
proof -
  have "sorted (map f (sort_key f xs))" by (rule sorted_sort_key)
  with assms have "\<forall>z \<in> set ys. f y \<le> f z" by auto
  moreover have "set xs = set (y # ys)" using assms set_sort [of f xs] by simp
  ultimately show ?thesis by auto
qed

lemma matchBook_scored:
  assumes "exactIsbnMatch book isbnResults = None"
  shows "(\<forall>b. matchBook toLowerCase book isbnResults results = Some b \<longrightarrow>
            b \<in> set results \<and> scoreCandidate toLowerCase book b > 60
            \<and> (\<forall>c \<in> set results.
                  scoreCandidate toLowerCase book c \<le> scoreCandidate toLowerCase book b))
       \<and> (matchBook toLowerCase book isbnResults results = None
            \<longleftrightarrow> (\<forall>c \<in> set results. scoreCandidate toLowerCase book c \<le> 60))"
proof (cases results)
  case Nil
  then show ?thesis using assms by (simp add: matchBook_def)
next
  case (Cons r rs)
  define scored where "scored = map (\<lambda>hb. (hb, scoreCandidate toLowerCase book hb)) results"
  define ranked where "ranked = sort_key (\<lambda>p. - snd p) scored"
  have "length ranked = length results" by (simp add: ranked_def scored_def)
  with Cons obtain best others where rk: "ranked = best # others" by (cases ranked) auto
  from sort_key_head [OF rk [unfolded ranked_def]]
  have bin: "best \<in> set scored" and bmax: "\<forall>x \<in> set scored. snd x \<le> snd best" by auto
  from bin have b1: "fst best \<in> set results"
    and b2: "snd best = scoreCandidate toLowerCase book (fst best)"
    by (auto simp: scored_def)
  have b3: "\<forall>c \<in> set results. scoreCandidate toLowerCase book c \<le> snd best"
    using bmax by (auto simp: scored_def)
  have m: "matchBook toLowerCase book isbnResults results
             = (if snd best > 60 then Some (fst best) else None)"
    using assms Cons rk by (simp add: matchBook_def Let_def ranked_def scored_def)
  show ?thesis
  proof (cases "snd best > 60")
    case True
    then have "\<exists>c \<in> set results. \<not> scoreCandidate toLowerCase book c \<le> 60"
      using b1 b2 by (intro bexI [of _ "fst best"]) auto
    with True m b1 b2 b3 show ?thesis by auto
  next
    case False
    with m b1 b2 b3 show ?thesis by fastforce
  qed
qed

lemma stringSimilarity_eval:
  assumes "length a \<le> length b" and "length b = n" and "0 < n"
    and "levenshteinDistance b a = d"
  shows "stringSimilarity a b = fdiv (real n - real d) (real n)"
  using assms by (auto simp add: stringSimilarity_def Let_def)

lemma stringSimilarity_same: "stringSimilarity s s = 1"
  by (simp add: stringSimilarity_spec similaritySpec_def levenshtein_def levPrefix_same toDouble_1)

text \<open>
  A candidate whose lower-cased title and joined author names are those of the local
  book scores 100: the products 70 and 30 and their sum are integers, hence doubles.
\<close>

lemma exact_candidate_scores_100:
  assumes "toLowerCase (hb_title hb) = toLowerCase (title book)"
    and "toLowerCase (joinSpace (hb_authors hb)) = toLowerCase (author book)"
  shows "scoreCandidate toLowerCase book hb = 100"
  using assms toDouble_of_int [of 70] toDouble_of_int [of 30] toDouble_of_int [of 100]
  by (simp add: scoreCandidate_def Let_def stringSimilarity_same fadd_def fmul_def)

lemma dune_score: "scoreCandidate toLowerCase duneBook duneCandidate = 100"
  by (rule exact_candidate_scores_100) (simp_all add: duneBook_def duneCandidate_def)

lemma dune_no_isbn: "exactIsbnMatch duneBook rs = None"
  by (simp add: exactIsbnMatch_def duneBook_def truthyStr_def)

text \<open>
  \<open>Children of Dune\<close> by Frank Herbert against the local book \<open>Dune\<close>: the titles
  are 12 of 16 places apart, the similarity is 0.25, and the score is 17.5 + 30.
\<close>

lemma lev_children:
  "levenshteinDistance (asciiLowerCase (ascii ''Children of Dune'')) (asciiLowerCase (ascii ''Dune''))
     = 12"
  by code_simp

lemma len_children: "length (asciiLowerCase (ascii ''Children of Dune'')) = 16"
  and len_dune: "length (asciiLowerCase (ascii ''Dune'')) = 4"
  by (simp_all add: asciiLowerCase_def ascii_def)

lemma children_score: "scoreCandidate asciiLowerCase duneBook childrenOfDune = 95 / 2"
proof -
  have a: "stringSimilarity (asciiLowerCase (author duneBook))
             (asciiLowerCase (joinSpace (hb_authors childrenOfDune))) = 1"
    by (simp add: duneBook_def childrenOfDune_def stringSimilarity_same)
  have e: "toDouble (1 / 4) = 1 / 4" by (rule toDouble_exact [of _ 1 2]) simp_all
  have "stringSimilarity (asciiLowerCase (ascii ''Dune'')) (asciiLowerCase (ascii ''Children of Dune''))
          = fdiv (real 16 - real 12) (real 16)"
    by (rule stringSimilarity_eval) (simp_all add: len_children len_dune lev_children)
  also have "\<dots> = 1 / 4" by (simp add: fdiv_def e)
  finally have t: "stringSimilarity (asciiLowerCase (title duneBook))
                     (asciiLowerCase (hb_title childrenOfDune)) = 1 / 4"
    by (simp add: duneBook_def childrenOfDune_def)
  have e1: "toDouble (35 / 2) = 35 / 2" by (rule toDouble_exact [of _ 35 1]) simp_all
  have e2: "toDouble 30 = 30" by (rule toDouble_exact [of _ 30 0]) simp_all
  have e3: "toDouble (95 / 2) = 95 / 2" by (rule toDouble_exact [of _ 95 1]) simp_all
  have s1: "fadd 0 (fmul (1 / 4) 70) = 35 / 2" by (simp add: fadd_def fmul_def e1)
  have s2: "fmul 1 30 = 30" by (simp add: fmul_def e2)
  have s3: "fadd (35 / 2) 30 = 95 / 2" by (simp add: fadd_def e3)
  show ?thesis unfolding scoreCandidate_def Let_def a t s1 s2 s3 ..
qed

text \<open>
  \<open>Dune Messiah\<close> by Frank Herbert against the local book \<open>Dune\<close>: the titles
  are 8 of 12 places apart, the similarity is the double 0.3333333333333333, 70 times
  it is 23.333333333333332, and adding 30 gives a number half-way between two doubles,
  which is rounded to the one with the even mantissa, 53.33333333333333.
\<close>

lemma lev_messiah:
  "levenshteinDistance (asciiLowerCase (ascii ''Dune Messiah'')) (asciiLowerCase (ascii ''Dune''))
     = 8"
  by code_simp

lemma len_messiah: "length (asciiLowerCase (ascii ''Dune Messiah'')) = 12"
  by (simp add: asciiLowerCase_def ascii_def)

lemma messiah_score:
  "scoreCandidate asciiLowerCase duneBook duneMessiah = 7505999378950826 / 2 ^ 47"
proof -
  have a: "stringSimilarity (asciiLowerCase (author duneBook))
             (asciiLowerCase (joinSpace (hb_authors duneMessiah))) = 1"
    by (simp add: duneBook_def duneMessiah_def stringSimilarity_same)
  have "stringSimilarity (asciiLowerCase (ascii ''Dune'')) (asciiLowerCase (ascii ''Dune Messiah''))
          = fdiv (real 12 - real 8) (real 12)"
    by (rule stringSimilarity_eval) (simp_all add: len_messiah len_dune lev_messiah)
  also have "\<dots> = 6004799503160661 / 2 ^ 54"
    using fdiv_eval [of 4 12 54 6004799503160661] by simp
  finally have t: "stringSimilarity (asciiLowerCase (title duneBook))
                     (asciiLowerCase (hb_title duneMessiah)) = 6004799503160661 / 2 ^ 54"
    by (simp add: duneBook_def duneMessiah_def)
  have t70: "fmul (6004799503160661 / 2 ^ 54) 70 = 6567749456581973 / 2 ^ 48"
    using fmul_eval [of "6004799503160661 / 2 ^ 54" 70 48 6567749456581973] by simp
  have e: "toDouble 30 = 30" by (rule toDouble_exact [of _ 30 0]) simp_all
  have s2: "fmul 1 30 = 30" by (simp add: fmul_def e)
  have s3: "fadd (6567749456581973 / 2 ^ 48) 30 = 7505999378950826 / 2 ^ 47"
    using fadd_eval_tie [of "6567749456581973 / 2 ^ 48" 30 47 7505999378950826] by simp
  show ?thesis unfolding scoreCandidate_def Let_def a t fadd_0_fmul t70 s2 s3 ..
qed

text \<open>
  The candidate \<open>The Book II\<close> against the local book \<open>The Book\<close>: the title
  similarity is 8/11 and the author similarity 10/33, so that 70 times the first plus
  30 times the second is exactly 60. The doubles give 0.7272727272727273 times 70 =
  50.909090909090914, 0.30303030303030304 times 30 = 9.090909090909092, and the sum
  60.00000000000001.
\<close>

lemma lev_sequel_title:
  "levenshteinDistance (asciiLowerCase (ascii ''The Book II'')) (asciiLowerCase (ascii ''The Book''))
     = 3"
  by code_simp

lemma lev_sequel_author:
  "levenshteinDistance
     (asciiLowerCase (joinSpace [ascii ''Ann Author'', ascii ''Bob Coauthor'', ascii ''Cy Writer'']))
     (asciiLowerCase (ascii ''Ann Author'')) = 23"
  by code_simp

lemma len_sequel:
  "length (asciiLowerCase (ascii ''The Book II'')) = 11"
  "length (asciiLowerCase (ascii ''The Book'')) = 8"
  "length (asciiLowerCase (joinSpace [ascii ''Ann Author'', ascii ''Bob Coauthor'',
                                       ascii ''Cy Writer''])) = 33"
  "length (asciiLowerCase (ascii ''Ann Author'')) = 10"
  by (simp_all add: asciiLowerCase_def ascii_def)

lemma sequel_title_similarity:
  "stringSimilarity (asciiLowerCase (title sequelBook)) (asciiLowerCase (hb_title sequelCandidate))
     = fdiv 8 11"
proof -
  have "stringSimilarity (asciiLowerCase (ascii ''The Book'')) (asciiLowerCase (ascii ''The Book II''))
          = fdiv (real 11 - real 3) (real 11)"
    by (rule stringSimilarity_eval) (simp_all add: len_sequel lev_sequel_title)
  then show ?thesis by (simp add: sequelBook_def sequelCandidate_def)
qed

lemma sequel_author_similarity:
  "stringSimilarity (asciiLowerCase (author sequelBook))
     (asciiLowerCase (joinSpace (hb_authors sequelCandidate))) = fdiv 10 33"
proof -
  have "stringSimilarity (asciiLowerCase (ascii ''Ann Author''))
          (asciiLowerCase (joinSpace [ascii ''Ann Author'', ascii ''Bob Coauthor'',
                                      ascii ''Cy Writer'']))
          = fdiv (real 33 - real 23) (real 33)"
    by (rule stringSimilarity_eval)
      (simp_all add: len_sequel lev_sequel_author del: joinSpace.simps)
  then show ?thesis by (simp add: sequelBook_def sequelCandidate_def del: joinSpace.simps)
qed

lemma sequel_score:
  "scoreCandidate asciiLowerCase sequelBook sequelCandidate = 8444249301319681 / 2 ^ 47"
proof -
  have t: "fdiv 8 11 = 6550690367084358 / 2 ^ 53"
    using fdiv_eval [of 8 11 53 6550690367084358] by simp
  have t70: "fmul (6550690367084358 / 2 ^ 53) 70 = 7164817588998517 / 2 ^ 47"
    using fmul_eval [of "6550690367084358 / 2 ^ 53" 70 47 7164817588998517] by simp
  have s1: "fadd 0 (7164817588998517 / 2 ^ 47) = 7164817588998517 / 2 ^ 47"
  proof -
    have "toDouble (7164817588998517 / 2 ^ 47) = 7164817588998517 / 2 ^ 47"
      by (rule toDouble_exact [of _ 7164817588998517 47]) simp_all
    then show ?thesis by (simp add: fadd_def)
  qed
  have a: "fdiv 10 33 = 5458908639236965 / 2 ^ 54"
    using fdiv_eval [of 10 33 54 5458908639236965] by simp
  have a30: "fmul (5458908639236965 / 2 ^ 54) 30 = 5117726849284655 / 2 ^ 49"
    using fmul_eval [of "5458908639236965 / 2 ^ 54" 30 49 5117726849284655] by simp
  have s2: "fadd (7164817588998517 / 2 ^ 47) (5117726849284655 / 2 ^ 49)
              = 8444249301319681 / 2 ^ 47"
    using fadd_eval [of "7164817588998517 / 2 ^ 47" "5117726849284655 / 2 ^ 49" 47
                        8444249301319681]
    by simp
  show ?thesis
    unfolding scoreCandidate_def Let_def sequel_title_similarity sequel_author_similarity
      t t70 s1 a a30 s2 ..
qed

lemma sequel_no_isbn: "exactIsbnMatch sequelBook rs = None"
  by (simp add: exactIsbnMatch_def sequelBook_def truthyStr_def)

text \<open>
  C7, as stated, fails: a candidate whose score by the formula of the claim is exactly
  60, not strictly greater than 60, is accepted, because the score the matcher compares
  with 60 is the sum of the doubles, 60.00000000000001.
\<close>

theorem score_of_exactly_60_is_matched:
  "70 * similaritySpec (asciiLowerCase (title sequelBook))
          (asciiLowerCase (hb_title sequelCandidate))
     + 30 * similaritySpec (asciiLowerCase (author sequelBook))
              (asciiLowerCase (joinSpace (hb_authors sequelCandidate))) = 60
   \<and> matchBook asciiLowerCase sequelBook [] [sequelCandidate] = Some sequelCandidate"
proof -
  have dt: "levenshtein (asciiLowerCase (ascii ''The Book'')) (asciiLowerCase (ascii ''The Book II''))
              = 3"
    using lev_sequel_title
    by (simp only: levenshteinDistance_correct
          levenshtein_sym [of "asciiLowerCase (ascii ''The Book'')"])
  have da: "levenshtein (asciiLowerCase (ascii ''Ann Author''))
              (asciiLowerCase (joinSpace [ascii ''Ann Author'', ascii ''Bob Coauthor'',
                                          ascii ''Cy Writer''])) = 23"
    using lev_sequel_author
    by (simp only: levenshteinDistance_correct
          levenshtein_sym [of "asciiLowerCase (ascii ''Ann Author'')"])
  have ne: "asciiLowerCase (ascii ''The Book'') \<noteq> []" "asciiLowerCase (ascii ''Ann Author'') \<noteq> []"
    by (simp_all add: asciiLowerCase_def ascii_def)
  have st: "similaritySpec (asciiLowerCase (title sequelBook))
              (asciiLowerCase (hb_title sequelCandidate)) = 8 / 11"
    using ne(1)
    by (simp add: similaritySpec_def sequelBook_def sequelCandidate_def dt len_sequel
          del: joinSpace.simps)
  have sa: "similaritySpec (asciiLowerCase (author sequelBook))
              (asciiLowerCase (joinSpace (hb_authors sequelCandidate))) = 10 / 33"
    using ne(2)
    by (simp add: similaritySpec_def sequelBook_def sequelCandidate_def da len_sequel
          del: joinSpace.simps)
  have m: "matchBook asciiLowerCase sequelBook [] [sequelCandidate] = Some sequelCandidate"
    by (simp add: matchBook_def sequel_no_isbn sequel_score)
  show ?thesis unfolding st sa using m by simp
qed

text \<open>
  C7, amended. When the ISBN step finds no exact match, every candidate of the title
  and author search is given the score that the doubles give for
  \<open>titleSimilarity \<sqdot> 70 + authorSimilarity \<sqdot> 30\<close>: each similarity is the double
  nearest to 1 minus the Levenshtein distance divided by the length of the longer
  string (on the lower-cased strings, the candidate's authors joined by spaces), each
  product and the sum are rounded to the nearest double. A candidate is returned only
  if this score is strictly greater than 60, and then no candidate has a higher one; no
  candidate is returned exactly when every such score is at most 60. The candidate
  \<open>Dune\<close> by Frank Herbert scores 100 for the local book \<open>Dune\<close> by Frank Herbert
  and is matched. All of this holds whatever function \<open>toLowerCase\<close> is.
\<close>

theorem book_matcher:
  assumes "exactIsbnMatch book isbnResults = None"
  shows "(\<forall>hb. scoreCandidate toLowerCase book hb
             = fadd (fmul (toDouble (similaritySpec (toLowerCase (title book))
                                       (toLowerCase (hb_title hb)))) 70)
                 (fmul (toDouble (similaritySpec (toLowerCase (author book))
                                    (toLowerCase (joinSpace (hb_authors hb))))) 30))
     \<and> (\<forall>b. matchBook toLowerCase book isbnResults results = Some b \<longrightarrow>
            b \<in> set results \<and> scoreCandidate toLowerCase book b > 60
            \<and> (\<forall>c \<in> set results.
                  scoreCandidate toLowerCase book c \<le> scoreCandidate toLowerCase book b))
     \<and> (matchBook toLowerCase book isbnResults results = None
            \<longleftrightarrow> (\<forall>c \<in> set results. scoreCandidate toLowerCase book c \<le> 60))
     \<and> scoreCandidate toLowerCase duneBook duneCandidate = 100
     \<and> matchBook toLowerCase duneBook [] [duneCandidate] = Some duneCandidate"
proof -
  have formula: "scoreCandidate toLowerCase book hb
             = fadd (fmul (toDouble (similaritySpec (toLowerCase (title book))
                                       (toLowerCase (hb_title hb)))) 70)
                 (fmul (toDouble (similaritySpec (toLowerCase (author book))
                                    (toLowerCase (joinSpace (hb_authors hb))))) 30)" for hb
    by (simp add: scoreCandidate_def Let_def stringSimilarity_spec fadd_0_fmul)
  have dune: "matchBook toLowerCase duneBook [] [duneCandidate] = Some duneCandidate"
    by (simp add: matchBook_def dune_no_isbn dune_score)
  from formula matchBook_scored [OF assms, of toLowerCase results] dune_score [of toLowerCase] dune
  show ?thesis by blast
qed

theorem book_matcher_witness:
  "exactIsbnMatch duneBook [] = None
   \<and> matchBook asciiLowerCase duneBook [] [childrenOfDune, duneCandidate] = Some duneCandidate
   \<and> scoreCandidate asciiLowerCase duneBook duneCandidate = 100
   \<and> scoreCandidate asciiLowerCase duneBook childrenOfDune = 95 / 2
   \<and> scoreCandidate asciiLowerCase duneBook childrenOfDune
       \<le> scoreCandidate asciiLowerCase duneBook duneCandidate
   \<and> matchBook asciiLowerCase duneBook [] [childrenOfDune] = None"
proof -
  have h: "exactIsbnMatch duneBook [] = None" by (rule dune_no_isbn)
  have m: "matchBook asciiLowerCase duneBook [] [childrenOfDune, duneCandidate] = Some duneCandidate"
    by (simp add: matchBook_def dune_no_isbn dune_score children_score)
  from book_matcher [OF h, of asciiLowerCase "[childrenOfDune, duneCandidate]"]
  have "\<forall>b. matchBook asciiLowerCase duneBook [] [childrenOfDune, duneCandidate] = Some b \<longrightarrow>
            b \<in> set [childrenOfDune, duneCandidate] \<and> scoreCandidate asciiLowerCase duneBook b > 60
            \<and> (\<forall>c \<in> set [childrenOfDune, duneCandidate].
                  scoreCandidate asciiLowerCase duneBook c \<le> scoreCandidate asciiLowerCase duneBook b)"
    by blast
  with m have "\<forall>c \<in> set [childrenOfDune, duneCandidate].
                 scoreCandidate asciiLowerCase duneBook c
                   \<le> scoreCandidate asciiLowerCase duneBook duneCandidate"
    by blast
  then have top: "scoreCandidate asciiLowerCase duneBook childrenOfDune
                    \<le> scoreCandidate asciiLowerCase duneBook duneCandidate"
    by simp
  from book_matcher [OF h, of asciiLowerCase "[childrenOfDune]"]
  have "matchBook asciiLowerCase duneBook [] [childrenOfDune] = None
          \<longleftrightarrow> (\<forall>c \<in> set [childrenOfDune]. scoreCandidate asciiLowerCase duneBook c \<le> 60)"
    by blast
  then have none: "matchBook asciiLowerCase duneBook [] [childrenOfDune] = None"
    by (simp add: children_score)
  from h m top none show ?thesis by (simp add: dune_score children_score)
qed

section \<open>Properties of the duplicate-session cleanup\<close>

lemma findBestRead_max:
  "findBestRead b rs \<in> set (b # rs)
   \<and> (\<forall>r \<in> set (b # rs). pagesOr0 r \<le> pagesOr0 (findBestRead b rs))"
proof (induction rs arbitrary: b)
  case Nil
  then show ?case by simp
next
  case (Cons r rs)
  let ?b' = "if pagesOr0 r > pagesOr0 b then r else b"
  from Cons.IH [of ?b']
  have "findBestRead ?b' rs \<in> set (?b' # rs)"
    and le: "\<forall>x \<in> set (?b' # rs). pagesOr0 x \<le> pagesOr0 (findBestRead ?b' rs)" by auto
  moreover have "pagesOr0 b \<le> pagesOr0 ?b'" "pagesOr0 r \<le> pagesOr0 ?b'" by auto
  ultimately show ?case by (auto simp del: findBestRead.simps simp add: findBestRead.simps(2) [of b r rs] intro: order_trans)
qed

lemma deleteOthers_calls:
  "deleteOthers deleteRead k rs n
   = (n + length (filter deleteRead (filter (\<lambda>i. i \<noteq> k) (map read_id rs))),
      filter (\<lambda>i. i \<noteq> k) (map read_id rs))"
  by (induction rs arbitrary: n) (auto simp: Let_def)

lemma cleanup_unfold:
  "rest \<noteq> [] \<Longrightarrow>
   cleanupDuplicateReads deleteRead (first # rest)
   = (let k = read_id (findBestRead first (first # rest))
      in (\<lparr> deleted = length (filter deleteRead
                                 (filter (\<lambda>i. i \<noteq> k) (map read_id (first # rest)))),
            kept = Some k \<rparr>,
          filter (\<lambda>i. i \<noteq> k) (map read_id (first # rest))))"
  by (simp add: cleanupDuplicateReads_def deleteOthers_calls Let_def
        del: deleteOthers.simps findBestRead.simps)

lemma distinct_ids_others:
  assumes "distinct (map read_id reads)" "best \<in> set reads"
  shows "filter (\<lambda>i. i \<noteq> read_id best) (map read_id reads)
           = map read_id (filter (\<lambda>r. r \<noteq> best) reads)"
    and "length (filter (\<lambda>r. r \<noteq> best) reads) = length reads - 1"
proof -
  have same: "\<And>r. r \<in> set reads \<Longrightarrow> (read_id r \<noteq> read_id best) = (r \<noteq> best)"
    using assms by (auto simp: distinct_map inj_on_def)
  show "filter (\<lambda>i. i \<noteq> read_id best) (map read_id reads)
           = map read_id (filter (\<lambda>r. r \<noteq> best) reads)"
    using same by (simp add: filter_map comp_def cong: filter_cong)
  have d: "distinct reads" using assms(1) by (simp add: distinct_map)
  have "filter (\<lambda>r. r \<noteq> best) reads = removeAll best reads"
    by (induction reads) auto
  also have "length \<dots> = length reads - 1"
    using d assms(2) by (simp add: distinct_removeAll distinct_remove1_removeAll [symmetric] length_remove1)
  finally show "length (filter (\<lambda>r. r \<noteq> best) reads) = length reads - 1" .
qed

text \<open>With at most one session nothing is deleted and no kept id is reported.\<close>

lemma cleanup_single:
  "length reads \<le> 1 \<Longrightarrow>
     cleanupDuplicateReads deleteRead reads = (\<lparr> deleted = 0, kept = None \<rparr>, [])"
  by (cases reads) (simp_all add: cleanupDuplicateReads_def)

text \<open>
  C8. For at least two sessions with distinct ids, the cleanup keeps a session whose
  progress is the highest, reports its id as \<open>kept\<close>, calls \<open>deleteRead\<close> for every
  other session and for no other id, and reports as \<open>deleted\<close> the number of those
  calls that succeeded, which is all the other sessions when every call succeeds.
  Applied to the sessions with ids 1, 2, 3 and progress 40, 120, 80, with every delete
  call succeeding, it keeps id 2, deletes ids 1 and 3, and returns \<open>deleted = 2\<close>,
  \<open>kept = 2\<close>.
\<close>

theorem cleanup_keeps_best:
  assumes "2 \<le> length reads" and "distinct (map read_id reads)"
  shows "(\<exists>best \<in> set reads.
           (\<forall>r \<in> set reads. pagesOr0 r \<le> pagesOr0 best)
         \<and> kept (fst (cleanupDuplicateReads deleteRead reads)) = Some (read_id best)
         \<and> snd (cleanupDuplicateReads deleteRead reads)
             = map read_id (filter (\<lambda>r. r \<noteq> best) reads)
         \<and> deleted (fst (cleanupDuplicateReads deleteRead reads))
             = length (filter deleteRead (snd (cleanupDuplicateReads deleteRead reads)))
         \<and> ((\<forall>i. deleteRead i) \<longrightarrow>
              deleted (fst (cleanupDuplicateReads deleteRead reads)) = length reads - 1))
     \<and> cleanupDuplicateReads (\<lambda>i. True) exampleReads
           = (\<lparr> deleted = 2, kept = Some 2 \<rparr>, [1, 3])"
proof -
  from assms(1) obtain first rest where rs: "reads = first # rest"
    by (cases reads) auto
  with assms(1) have ne: "rest \<noteq> []" by auto
  define best where "best = findBestRead first reads"
  have b: "best \<in> set reads" "\<forall>r \<in> set reads. pagesOr0 r \<le> pagesOr0 best"
    using findBestRead_max [of first reads] by (auto simp: best_def rs)
  have c: "cleanupDuplicateReads deleteRead reads
           = (\<lparr> deleted = length (filter deleteRead
                                  (filter (\<lambda>i. i \<noteq> read_id best) (map read_id reads))),
                kept = Some (read_id best) \<rparr>,
              filter (\<lambda>i. i \<noteq> read_id best) (map read_id reads))"
    unfolding rs best_def using cleanup_unfold [OF ne, of deleteRead first]
    by (simp only: Let_def)
  note o = distinct_ids_others [OF assms(2) b(1)]
  have general: "\<exists>best \<in> set reads.
           (\<forall>r \<in> set reads. pagesOr0 r \<le> pagesOr0 best)
         \<and> kept (fst (cleanupDuplicateReads deleteRead reads)) = Some (read_id best)
         \<and> snd (cleanupDuplicateReads deleteRead reads)
             = map read_id (filter (\<lambda>r. r \<noteq> best) reads)
         \<and> deleted (fst (cleanupDuplicateReads deleteRead reads))
             = length (filter deleteRead (snd (cleanupDuplicateReads deleteRead reads)))
         \<and> ((\<forall>i. deleteRead i) \<longrightarrow>
              deleted (fst (cleanupDuplicateReads deleteRead reads)) = length reads - 1)"
    using b o(2) by (intro bexI [of _ best]) (simp_all add: c o(1))
  have example: "cleanupDuplicateReads (\<lambda>i. True) exampleReads
           = (\<lparr> deleted = 2, kept = Some 2 \<rparr>, [1, 3])"
    by (simp add: exampleReads_def cleanupDuplicateReads_def pagesOr0_def)
  from general example show ?thesis by (rule conjI)
qed

theorem cleanup_keeps_best_witness:
  "2 \<le> length exampleReads \<and> distinct (map read_id exampleReads)
   \<and> kept (fst (cleanupDuplicateReads (\<lambda>i. i \<noteq> 3) exampleReads)) = Some 2
   \<and> snd (cleanupDuplicateReads (\<lambda>i. i \<noteq> 3) exampleReads) = [1, 3]
   \<and> deleted (fst (cleanupDuplicateReads (\<lambda>i. i \<noteq> 3) exampleReads)) = 1"
proof -
  have h1: "2 \<le> length exampleReads" by (simp add: exampleReads_def)
  have h2: "distinct (map read_id exampleReads)" by (simp add: exampleReads_def)
  have e: "cleanupDuplicateReads (\<lambda>i. i \<noteq> 3) exampleReads
             = (\<lparr> deleted = 1, kept = Some 2 \<rparr>, [1, 3])"
    by (simp add: exampleReads_def cleanupDuplicateReads_def pagesOr0_def)
  from cleanup_keeps_best [OF h1 h2, of "\<lambda>i. i \<noteq> 3"] h1 h2 e show ?thesis by simp
qed

section \<open>Properties of writing progress\<close>

lemma catchAll_Inr: "\<exists>r. catchAll x = Inr r"
  by (cases x) (simp_all add: catchAll_def)

lemma updateProgress_create:
  "\<not> truthy readId \<Longrightarrow>
   updateProgress gql today userBookId page readId editionId startedAt
   = (case createBranch gql today userBookId page editionId startedAt of
        (r, sent) \<Rightarrow> (catchAll r, [sent]))"
  by (subst updateProgress.simps) simp

lemma updateProgress_update:
  "truthy readId \<Longrightarrow>
   updateProgress gql today userBookId page readId editionId startedAt
   = (case updateBranch gql page (the readId) editionId startedAt of
        (Settled r, sent) \<Rightarrow> (catchAll r, [sent])
      | (FallBackToCreate, sent) \<Rightarrow>
          (case createBranch gql today userBookId page editionId startedAt of
             (r, c) \<Rightarrow> (catchAll r, [sent, c])))"
  by (subst updateProgress.simps)
     (auto simp: truthy_def updateProgress_create split: option.splits prod.splits update_step.splits)



lemma updateBranch_step:
  "fst (updateBranch gql page rid editionId startedAt)
   = (case gql (snd (updateBranch gql page rid editionId startedAt)) of
        Inl e \<Rightarrow> Settled (Inl e)
      | Inr result \<Rightarrow>
          if truthyStr (case result of None \<Rightarrow> None | Some r \<Rightarrow> payload_error r)
          then FallBackToCreate
          else (case (case result of None \<Rightarrow> None | Some r \<Rightarrow> user_book_read r) of
                  None \<Rightarrow> Settled (Inr failedResult)
                | Some userBookRead \<Rightarrow>
                    if ubr_progress_pages userBookRead = None then FallBackToCreate
                    else Settled (Inr (succeededResult userBookRead))))"
  by (simp add: updateBranch_def Let_def)




text \<open>
  The update branch falls back to creating a session exactly when the update call
  returns an error member, or returns a session whose progress is null.
\<close>

lemma updateBranch_falls_back_iff:
  "fst (updateBranch gql page rid editionId startedAt) = FallBackToCreate
   \<longleftrightarrow> (\<exists>result. gql (snd (updateBranch gql page rid editionId startedAt)) = Inr result
         \<and> (truthyStr (case result of None \<Rightarrow> None | Some r \<Rightarrow> payload_error r)
              \<or> (\<exists>r ubr. result = Some r \<and> user_book_read r = Some ubr
                    \<and> ubr_progress_pages ubr = None)))"
proof (cases "gql (snd (updateBranch gql page rid editionId startedAt))")
  case (Inl e)
  then show ?thesis by (simp add: updateBranch_step)
next
  case (Inr result)
  show ?thesis
  proof (cases result)
    case None
    with Inr show ?thesis by (simp add: updateBranch_step)
  next
    case (Some r)
    with Inr show ?thesis
      by (cases "user_book_read r") (simp_all add: updateBranch_step)
  qed
qed



section \<open>Properties of the end of a push\<close>

text \<open>The promise of \<open>updateProgress\<close> never rejects.\<close>

lemma updateProgress_settles:
  "\<exists>r. fst (updateProgress gql today userBookId page readId editionId startedAt) = Inr r"
proof (cases "truthy readId")
  case False
  obtain x c where cb: "createBranch gql today userBookId page editionId startedAt = (x, c)"
    by (cases "createBranch gql today userBookId page editionId startedAt")
  with False catchAll_Inr [of x] show ?thesis by (auto simp: updateProgress_create)
next
  case True
  obtain st u where ub: "updateBranch gql page (the readId) editionId startedAt = (st, u)"
    by (cases "updateBranch gql page (the readId) editionId startedAt")
  obtain x c where cb: "createBranch gql today userBookId page editionId startedAt = (x, c)"
    by (cases "createBranch gql today userBookId page editionId startedAt")
  show ?thesis
  proof (cases st)
    case (Settled y)
    with True ub catchAll_Inr [of y] show ?thesis by (auto simp: updateProgress_update)
  next
    case FallBackToCreate
    with True ub cb catchAll_Inr [of x] show ?thesis by (auto simp: updateProgress_update)
  qed
qed

text \<open>
  Whatever the remote service answers, a push leaves the linkage id and the re-match
  flag as they were: the branch of the orchestrator that clears them is entered only
  when \<open>updateProgress\<close> rejects.
\<close>

lemma push_never_clears_linkage:
  "hardcoverId (config (fst (pushProgressInternal gql today now linkId sentPage st)))
     = hardcoverId (config st)
   \<and> needsMatching (fst (pushProgressInternal gql today now linkId sentPage st))
     = needsMatching st"
proof -
  from updateProgress_settles
    [of gql today linkId "real_of_int sentPage" "hardcoverReadId (config st)"
        "hardcoverEditionId (config st)" "hardcoverStartedAt (config st)"]
  obtain r where "fst (updateProgress gql today linkId (real_of_int sentPage)
      (hardcoverReadId (config st)) (hardcoverEditionId (config st)) (hardcoverStartedAt (config st)))
      = Inr r" by blast
  then show ?thesis
    by (cases "updateProgress gql today linkId (real_of_int sentPage)
      (hardcoverReadId (config st)) (hardcoverEditionId (config st)) (hardcoverStartedAt (config st))")
       (simp add: pushProgressInternal_def afterUpdateProgress_def)
qed

text \<open>
  The handler for the invalid linkage, if it were reached, clears the four remote
  identifiers and asks for a re-match; and the create branch does throw the error it
  waits for.
\<close>

lemma invalid_link_handler:
  "afterUpdateProgress now (Inl (Error ''HARDCOVER_INVALID_USER_BOOK'')) st
   = st\<lparr> config := (config st)\<lparr> hardcoverId := None, hardcoverReadId := None,
                                 hardcoverEditionId := None, hardcoverStartedAt := None \<rparr>,
         needsMatching := True, syncState := Failed \<rparr>"
  by (simp add: afterUpdateProgress_def)

lemma create_throws_invalid_user_book:
  "fst (createBranch linkGoneService today userBookId page editionId startedAt)
     = Inl (Error ''HARDCOVER_INVALID_USER_BOOK'')"
  by (simp add: createBranch_def linkGoneService_def Let_def)

text \<open>
  C9. The claim: when the create-session call answers \<open>Couldn't find UserBook\<close>, the
  orchestrator clears the remote identifiers of the linkage and requests re-matching.
  For a linked book without a read session and a remote service that gives that
  answer, the push sends the one create call and ends with the linkage id still \<open>42\<close>
  and the re-match flag still off; only the sync state changes. For a linked book with
  a read session whose update fails, the push falls back to the create call, gets the
  same answer, and again changes nothing but the sync state. The error thrown in
  the create branch is caught by the \<open>catch\<close> of \<open>updateProgress\<close> itself, which
  returns \<open>success = false\<close>, so the orchestrator takes its ordinary failure branch.
\<close>

theorem invalid_link_not_cleared:
  "pushProgressInternal linkGoneService ''2025-06-01'' 5000 ''42'' 120 linkedBook
     = (linkedBook\<lparr> syncState := Failed \<rparr>, [CREATE_READ_MUTATION ''42'' 120 ''2025-06-01'' None])
   \<and> hardcoverId (config (fst (pushProgressInternal linkGoneService ''2025-06-01'' 5000 ''42'' 120
                                  linkedBook))) = Some ''42''
   \<and> \<not> needsMatching (fst (pushProgressInternal linkGoneService ''2025-06-01'' 5000 ''42'' 120
                               linkedBook))
   \<and> pushProgressInternal linkGoneService ''2025-06-01'' 5000 ''42'' 120 linkedBookWithRead
     = (linkedBookWithRead\<lparr> syncState := Failed \<rparr>,
        [UPDATE_PROGRESS_MUTATION 7 120 (Some 9) (Some ''2025-01-01''),
         CREATE_READ_MUTATION ''42'' 120 ''2025-01-01'' (Some 9)])"
proof -
  have u: "updateProgress linkGoneService ''2025-06-01'' ''42'' 120 None None None
       = (Inr failedResult, [CREATE_READ_MUTATION ''42'' 120 ''2025-06-01'' None])"
    by (simp add: updateProgress_create truthy_def truthyStr_def createBranch_def
          linkGoneService_def catchAll_def Let_def)
  have p: "pushProgressInternal linkGoneService ''2025-06-01'' 5000 ''42'' 120 linkedBook
     = (linkedBook\<lparr> syncState := Failed \<rparr>, [CREATE_READ_MUTATION ''42'' 120 ''2025-06-01'' None])"
    by (simp add: pushProgressInternal_def linkedBook_def u afterUpdateProgress_def failedResult_def)
  have v: "updateProgress linkGoneService ''2025-06-01'' ''42'' 120 (Some 7) (Some 9)
             (Some ''2025-01-01'')
       = (Inr failedResult,
          [UPDATE_PROGRESS_MUTATION 7 120 (Some 9) (Some ''2025-01-01''),
           CREATE_READ_MUTATION ''42'' 120 ''2025-01-01'' (Some 9)])"
    by (simp add: updateProgress_update truthy_def truthyStr_def createBranch_def updateBranch_def
          linkGoneService_def catchAll_def Let_def)
  have q: "pushProgressInternal linkGoneService ''2025-06-01'' 5000 ''42'' 120 linkedBookWithRead
     = (linkedBookWithRead\<lparr> syncState := Failed \<rparr>,
        [UPDATE_PROGRESS_MUTATION 7 120 (Some 9) (Some ''2025-01-01''),
         CREATE_READ_MUTATION ''42'' 120 ''2025-01-01'' (Some 9)])"
    by (simp add: pushProgressInternal_def linkedBookWithRead_def v afterUpdateProgress_def
          failedResult_def)
  show ?thesis unfolding p q by (simp add: linkedBook_def)
qed

end
